theory Spec2Isabelle
  imports Complex_Main "HOL-Library.AList"
begin

section \<open>JavaScript values used by the version script\<close>

text \<open>
  The repository holds one script in two variants: \<^verbatim>\<open>src/update-project-version.ts\<close>
  (Node: \<^verbatim>\<open>fs.readFileSync\<close>, \<^verbatim>\<open>fs.writeFileSync\<close>) and \<^verbatim>\<open>src/unnamed/part_000\<close>
  (Bun: \<^verbatim>\<open>Bun.file\<close>, \<^verbatim>\<open>Bun.write\<close>, with the aliases p, min and max). Both read
  \<^verbatim>\<open>./package.json\<close>, split its \<^verbatim>\<open>version\<close> on the dot, convert the parts with
  \<^verbatim>\<open>Number\<close>, increment one of the first three, and write the manifest back.

  A JavaScript string is modelled by the bytes of its UTF-8 encoding (\<^typ>\<open>string\<close>).
  The dot, the digits and every other character the script compares are ASCII, so
  splitting and comparing bytes agrees with splitting and comparing code units.
\<close>

subsection \<open>Numbers\<close>

text \<open>
  A JavaScript number is an IEEE 754 double. A finite double is a rational number, so
  \<open>Fin q\<close> carries its exact value; the two zeros are identified (the script can only
  print a number or add one to it, and both zeros print as 0 and give 1).
\<close>

datatype jsnum = NaN | PosInf | NegInf | Fin rat

text \<open>The number of binary digits of a positive integer.\<close>

fun bit_length :: "int \<Rightarrow> nat" where
  "bit_length n = (if n \<le> 0 then 0 else Suc (bit_length (n div 2)))"

declare bit_length.simps [simp del]

text \<open>\<open>ilog2 q\<close> is the exponent \<open>l\<close> with \<open>2 powi l \<le> q < 2 powi (l + 1)\<close>, for \<open>q > 0\<close>.\<close>

definition ilog2 :: "rat \<Rightarrow> int" where
  "ilog2 q =
     (let (a, b) = quotient_of q;
          l = int (bit_length a) - int (bit_length b)
      in if 2 powi l \<le> q then l else l - 1)"

definition round_half_even :: "rat \<Rightarrow> int" where
  "round_half_even m =
     (let f = \<lfloor>m\<rfloor>; r = m - of_int f
      in if 1 / 2 < r \<or> (r = 1 / 2 \<and> odd f) then f + 1 else f)"

text \<open>
  Rounding a rational to the nearest double, ties to the even significand: the
  significand has 53 bits, the least exponent of a unit in the last place is -1074, and
  a result of magnitude \<open>2 ^ 1024\<close> or more is an infinity.
\<close>

definition round_double :: "rat \<Rightarrow> jsnum" where
  "round_double q =
     (if q = 0 then Fin 0
      else let e = max (ilog2 \<bar>q\<bar> - 52) (- 1074);
               v = of_int (round_half_even (q / 2 powi e)) * 2 powi e
           in if 2 ^ 1024 \<le> v then PosInf
              else if v \<le> - (2 ^ 1024) then NegInf
              else Fin v)"

text \<open>\<^verbatim>\<open>x++\<close> on a number stores \<^verbatim>\<open>x + 1\<close>, rounded as every double addition is.\<close>

fun js_inc :: "jsnum \<Rightarrow> jsnum" where
  "js_inc NaN = NaN"
| "js_inc PosInf = PosInf"
| "js_inc NegInf = NegInf"
| "js_inc (Fin q) = round_double (q + 1)"

fun js_negate :: "jsnum \<Rightarrow> jsnum" where
  "js_negate NaN = NaN"
| "js_negate PosInf = NegInf"
| "js_negate NegInf = PosInf"
| "js_negate (Fin q) = Fin (- q)"

subsection \<open>Digits\<close>

definition is_digit :: "char \<Rightarrow> bool" where
  "is_digit c = (c \<in> set ''0123456789'')"

definition digit_value :: "char \<Rightarrow> nat" where
  "digit_value c = of_char c - 48"

definition digits_value :: "string \<Rightarrow> nat" where
  "digits_value s = foldl (\<lambda>n c. 10 * n + digit_value c) 0 s"

definition digit_char :: "nat \<Rightarrow> char" where
  "digit_char d = ''0123456789'' ! d"

fun decimal :: "nat \<Rightarrow> string" where
  "decimal n = (if n < 10 then [digit_char n] else decimal (n div 10) @ [digit_char (n mod 10)])"

declare decimal.simps [simp del]

text \<open>Digits of the other radixes of a numeric literal; 16 stands for "not a digit".\<close>

definition hex_value :: "char \<Rightarrow> nat" where
  "hex_value c =
     (if is_digit c then digit_value c
      else if c \<in> set ''abcdef'' then of_char c - 87
      else if c \<in> set ''ABCDEF'' then of_char c - 55
      else 16)"

definition radix_value :: "nat \<Rightarrow> string \<Rightarrow> nat" where
  "radix_value b s = foldl (\<lambda>n c. b * n + hex_value c) 0 s"

subsection \<open>White space\<close>

text \<open>
  The characters \<^verbatim>\<open>String.prototype.trim\<close> and \<^verbatim>\<open>Number\<close> drop at both ends (WhiteSpace
  and LineTerminator of ECMAScript), as UTF-8 byte sequences: U+0009 to U+000D, U+0020,
  U+00A0, U+1680, U+2000 to U+200A, U+2028, U+2029, U+202F, U+205F, U+3000 and U+FEFF.
\<close>

definition white_space :: "string list" where
  "white_space =
     [[CHR 0x09], [CHR 0x0A], [CHR 0x0B], [CHR 0x0C], [CHR 0x0D], [CHR 0x20],
      [CHR 0xC2, CHR 0xA0],
      [CHR 0xE1, CHR 0x9A, CHR 0x80],
      [CHR 0xE2, CHR 0x80, CHR 0x80], [CHR 0xE2, CHR 0x80, CHR 0x81],
      [CHR 0xE2, CHR 0x80, CHR 0x82], [CHR 0xE2, CHR 0x80, CHR 0x83],
      [CHR 0xE2, CHR 0x80, CHR 0x84], [CHR 0xE2, CHR 0x80, CHR 0x85],
      [CHR 0xE2, CHR 0x80, CHR 0x86], [CHR 0xE2, CHR 0x80, CHR 0x87],
      [CHR 0xE2, CHR 0x80, CHR 0x88], [CHR 0xE2, CHR 0x80, CHR 0x89],
      [CHR 0xE2, CHR 0x80, CHR 0x8A],
      [CHR 0xE2, CHR 0x80, CHR 0xA8], [CHR 0xE2, CHR 0x80, CHR 0xA9],
      [CHR 0xE2, CHR 0x80, CHR 0xAF],
      [CHR 0xE2, CHR 0x81, CHR 0x9F],
      [CHR 0xE3, CHR 0x80, CHR 0x80],
      [CHR 0xEF, CHR 0xBB, CHR 0xBF]]"

text \<open>
  \<open>strip ws s\<close> drops the sequences of \<open>ws\<close> from the front of \<open>s\<close> for as long as one
  matches; the fuel is the length of \<open>s\<close>, which bounds the number of matches.
\<close>

fun strip_fuel :: "nat \<Rightarrow> string list \<Rightarrow> string \<Rightarrow> string" where
  "strip_fuel 0 ws s = s"
| "strip_fuel (Suc k) ws s =
     (case find (\<lambda>w. w \<noteq> [] \<and> take (length w) s = w) ws of
        None \<Rightarrow> s
      | Some w \<Rightarrow> strip_fuel k ws (drop (length w) s))"

definition strip :: "string list \<Rightarrow> string \<Rightarrow> string" where
  "strip ws s = strip_fuel (length s) ws s"

definition trim :: "string \<Rightarrow> string" where
  "trim s = rev (strip (map rev white_space) (rev (strip white_space s)))"

subsection \<open>Reading a number: \<^verbatim>\<open>Number(string)\<close>\<close>

text \<open>
  StringToNumber of ECMAScript: white space is dropped at both ends; the empty string
  is 0; then a radix literal (0x, 0o, 0b, unsigned), or an optional sign before
  \<^verbatim>\<open>Infinity\<close> or decimal digits with an optional fraction and exponent; anything else is
  NaN. The value is rounded to the nearest double, as V8 and JavaScriptCore do for every
  number of digits (ECMAScript lets an engine stop at twenty significant digits).
\<close>

definition digit_string :: "string \<Rightarrow> bool" where
  "digit_string s = (s \<noteq> [] \<and> dropWhile is_digit s = [])"

definition exponent_part :: "string \<Rightarrow> int option" where
  "exponent_part s =
     (case s of
        [] \<Rightarrow> Some 0
      | c # t \<Rightarrow>
          if c = CHR ''e'' \<or> c = CHR ''E'' then
            (case t of
               [] \<Rightarrow> None
             | g # u \<Rightarrow>
                 if g = CHR ''+'' then (if digit_string u then Some (int (digits_value u)) else None)
                 else if g = CHR ''-'' then (if digit_string u then Some (- int (digits_value u)) else None)
                 else (if digit_string t then Some (int (digits_value t)) else None))
          else None)"

definition unsigned_decimal :: "string \<Rightarrow> jsnum" where
  "unsigned_decimal s =
     (if s = ''Infinity'' then PosInf
      else
        let ip = takeWhile is_digit s;
            r = dropWhile is_digit s;
            fp = (case r of [] \<Rightarrow> [] | c # t \<Rightarrow> if c = CHR ''.'' then takeWhile is_digit t else []);
            r' = (case r of [] \<Rightarrow> [] | c # t \<Rightarrow> if c = CHR ''.'' then dropWhile is_digit t else r)
        in if ip = [] \<and> fp = [] then NaN
           else (case exponent_part r' of
                   None \<Rightarrow> NaN
                 | Some e \<Rightarrow>
                     round_double (of_nat (digits_value (ip @ fp)) * 10 powi (e - int (length fp)))))"

definition radix_literal :: "nat \<Rightarrow> string \<Rightarrow> jsnum" where
  "radix_literal b ds =
     (if ds \<noteq> [] \<and> dropWhile (\<lambda>c. hex_value c < b) ds = []
      then round_double (of_nat (radix_value b ds))
      else NaN)"

definition Number_js :: "string \<Rightarrow> jsnum" where
  "Number_js str =
     (let s = trim str
      in if s = [] then Fin 0
         else if take 2 s = ''0x'' \<or> take 2 s = ''0X'' then radix_literal 16 (drop 2 s)
         else if take 2 s = ''0o'' \<or> take 2 s = ''0O'' then radix_literal 8 (drop 2 s)
         else if take 2 s = ''0b'' \<or> take 2 s = ''0B'' then radix_literal 2 (drop 2 s)
         else if hd s = CHR ''+'' then unsigned_decimal (tl s)
         else if hd s = CHR ''-'' then js_negate (unsigned_decimal (tl s))
         else unsigned_decimal s)"

subsection \<open>Printing a number\<close>

text \<open>
  \<^verbatim>\<open>Number::toString\<close> of ECMAScript prints a positive finite \<open>q\<close> from integers
  \<open>n\<close>, \<open>k\<close> and \<open>s\<close> with \<open>k\<close> digits in \<open>s\<close>, such that \<open>s * 10 powi (n - k)\<close>
  reads back as \<open>q\<close> and \<open>k\<close> is least; among several \<open>s\<close> the one nearest to \<open>q\<close>.
  \<open>decimal_exponent q\<close> is the \<open>d\<close> with \<open>10 powi (d - 1) \<le> q < 10 powi d\<close>.
\<close>

definition decimal_exponent :: "rat \<Rightarrow> int" where
  "decimal_exponent q =
     (if 1 \<le> q then int (length (decimal (nat \<lfloor>q\<rfloor>)))
      else 1 - int (length (decimal (nat (\<lceil>1 / q\<rceil> - 1)))))"

text \<open>
  \<open>candidate q d k\<close> is the \<open>s\<close> of \<open>k\<close> digits nearest to \<open>q\<close> (the even one of two
  equally near) for which \<open>s * 10 powi (d - k)\<close> reads back as \<open>q\<close>, if there is one: only
  the two integers around \<open>q * 10 powi (k - d)\<close> can be. \<open>shortest\<close> tries 1 to 16 digits
  in turn and falls back on 17 digits, which tell any two doubles apart.
\<close>

definition candidate :: "rat \<Rightarrow> int \<Rightarrow> int \<Rightarrow> int option" where
  "candidate q d k =
     (let sc = q * 10 powi (k - d);
          lo = \<lfloor>sc\<rfloor>;
          hi = \<lceil>sc\<rceil>;
          ok = (\<lambda>s. round_double (of_int s * 10 powi (d - k)) = Fin q);
          lo_first = (sc - of_int lo < of_int hi - sc \<or> (sc - of_int lo = of_int hi - sc \<and> even lo))
      in if ok lo \<and> ok hi then Some (if lo_first then lo else hi)
         else if ok lo then Some lo
         else if ok hi then Some hi
         else None)"

fun shortest :: "rat \<Rightarrow> int \<Rightarrow> nat \<Rightarrow> int \<Rightarrow> int \<times> int" where
  "shortest q d 0 k = (round_half_even (q * 10 powi (k - d)), k)"
| "shortest q d (Suc fuel) k =
     (case candidate q d k of
        Some s \<Rightarrow> (s, k)
      | None \<Rightarrow> shortest q d fuel (k + 1))"

text \<open>
  The digits are laid out as ECMAScript prescribes: as an integer with trailing zeros,
  with a decimal point, with leading zeros after "0.", or with an exponent when the
  decimal exponent is above 21 or below -5.
\<close>

definition positive_toString :: "rat \<Rightarrow> string" where
  "positive_toString q =
     (let d = decimal_exponent q;
          (s0, k) = shortest q d 16 1;
          s = (if s0 = 10 ^ nat k then 10 ^ nat (k - 1) else s0);
          n = (if s0 = 10 ^ nat k then d + 1 else d);
          ds = decimal (nat s);
          e = n - 1;
          ex = (if e < 0 then ''-'' else ''+'') @ decimal (nat \<bar>e\<bar>)
      in if k \<le> n \<and> n \<le> 21 then ds @ replicate (nat (n - k)) (CHR ''0'')
         else if 0 < n \<and> n \<le> 21 then take (nat n) ds @ ''.'' @ drop (nat n) ds
         else if - 6 < n \<and> n \<le> 0 then ''0.'' @ replicate (nat (- n)) (CHR ''0'') @ ds
         else if k = 1 then ds @ ''e'' @ ex
         else take 1 ds @ ''.'' @ drop 1 ds @ ''e'' @ ex)"

fun Number_toString :: "jsnum \<Rightarrow> string" where
  "Number_toString NaN = ''NaN''"
| "Number_toString PosInf = ''Infinity''"
| "Number_toString NegInf = ''-Infinity''"
| "Number_toString (Fin q) =
     (if q = 0 then ''0''
      else if q < 0 then ''-'' @ positive_toString (- q)
      else positive_toString q)"

subsection \<open>Values of the version components\<close>

text \<open>
  A destructured component is a number, or \<^verbatim>\<open>undefined\<close> when the array is too short.
  \<^verbatim>\<open>x++\<close> converts with ToNumeric (\<^verbatim>\<open>undefined\<close> becomes NaN) and adds one; a template
  literal converts with ToString.
\<close>

datatype jsval = Undefined | Num jsnum

fun ToNumeric :: "jsval \<Rightarrow> jsnum" where
  "ToNumeric Undefined = NaN"
| "ToNumeric (Num x) = x"

fun ToString :: "jsval \<Rightarrow> string" where
  "ToString Undefined = ''undefined''"
| "ToString (Num x) = Number_toString x"

definition increment :: "jsval \<Rightarrow> jsval" where
  "increment v = Num (js_inc (ToNumeric v))"

text \<open>\<^verbatim>\<open>s.split(".")\<close>: the substrings between the dots, at least one.\<close>

fun split_dot :: "string \<Rightarrow> string list" where
  "split_dot [] = [[]]"
| "split_dot (c # cs) =
     (if c = CHR ''.'' then [] # split_dot cs
      else (case split_dot cs of [] \<Rightarrow> [[c]] | p # ps \<Rightarrow> (c # p) # ps))"

section \<open>The manifest and the file system\<close>

text \<open>
  The value \<^verbatim>\<open>JSON.parse\<close> returns: an object is the list of its own properties, in
  order. \<^verbatim>\<open>JSON.parse\<close> and \<^verbatim>\<open>JSON.stringify\<close> belong to the engine; the model takes them
  as the two fields of a record: \<open>parse J text\<close> is \<open>None\<close> where \<^verbatim>\<open>JSON.parse\<close> throws a
  SyntaxError, and \<open>stringify J v\<close> is \<^verbatim>\<open>JSON.stringify(v, null, 2)\<close>. Bun's
  \<^verbatim>\<open>file.json()\<close> parses with the same function, after decoding the file (see
  \<open>file_json\<close>).
\<close>

datatype json =
    JNull
  | JBool bool
  | JNumber jsnum
  | JString string
  | JArray "json list"
  | JObject "(string \<times> json) list"

record JSON =
  parse :: "string \<Rightarrow> json option"
  stringify :: "json \<Rightarrow> string"

datatype errno = ENOENT | EACCES

datatype error = SystemError errno | SyntaxError | TypeError | Error string

text \<open>
  \<^verbatim>\<open>./package.json\<close> is absent, or a file with its read permission, its write permission
  and its content. The world of the script is that file and the two console streams;
  \<open>stderr\<close> lists the errors whose message \<^verbatim>\<open>console.error\<close> printed.
\<close>

datatype manifest_file = Absent | File bool bool string

record world =
  manifest :: manifest_file
  stdout :: "string list"
  stderr :: "error list"

definition readFileSync :: "manifest_file \<Rightarrow> error + string" where
  "readFileSync f =
     (case f of
        Absent \<Rightarrow> Inl (SystemError ENOENT)
      | File r w text \<Rightarrow> if r then Inr text else Inl (SystemError EACCES))"

definition writeFileSync :: "string \<Rightarrow> manifest_file \<Rightarrow> error + manifest_file" where
  "writeFileSync text f =
     (case f of
        Absent \<Rightarrow> Inr (File True True text)
      | File r w old \<Rightarrow> if w then Inr (File r w text) else Inl (SystemError EACCES))"

text \<open>
  Bun: \<^verbatim>\<open>file.exists()\<close> returns a promise of a boolean, and the script does not await
  it. \<^verbatim>\<open>!file.exists()\<close> applies ToBoolean to the promise itself, and every object is
  truthy.
\<close>

datatype promise = Promise bool

definition file_exists :: "manifest_file \<Rightarrow> promise" where
  "file_exists f = Promise (f \<noteq> Absent)"

fun ToBoolean :: "promise \<Rightarrow> bool" where
  "ToBoolean (Promise b) = True"

text \<open>
  Bun: \<^verbatim>\<open>await file.json()\<close> decodes the bytes of the file as UTF-8, which drops one
  leading byte order mark (U+FEFF, the bytes EF BB BF), and parses the rest.
  \<^verbatim>\<open>fs.readFileSync(path, "utf8")\<close> of the Node variant keeps the mark, so that
  \<^verbatim>\<open>JSON.parse\<close> is given it.
\<close>

definition byte_order_mark :: string where
  "byte_order_mark = [CHR 0xEF, CHR 0xBB, CHR 0xBF]"

definition strip_bom :: "string \<Rightarrow> string" where
  "strip_bom text = (if take 3 text = byte_order_mark then drop 3 text else text)"

definition file_json :: "JSON \<Rightarrow> manifest_file \<Rightarrow> error + json" where
  "file_json J f =
     (case readFileSync f of
        Inl e \<Rightarrow> Inl e
      | Inr text \<Rightarrow>
          (case parse J (strip_bom text) of None \<Rightarrow> Inl SyntaxError | Some v \<Rightarrow> Inr v))"

section \<open>\<^verbatim>\<open>updateVersion\<close>\<close>

text \<open>
  \<^verbatim>\<open>const currentVersion = packageJson.version\<close> and the call
  \<^verbatim>\<open>currentVersion.split(".")\<close>: reading a property of \<^verbatim>\<open>null\<close> is a TypeError; a
  boolean, a number, a string and an array have no property \<^verbatim>\<open>version\<close>, and an object
  may lack it, so that \<^verbatim>\<open>currentVersion\<close> is \<^verbatim>\<open>undefined\<close> and reading its \<^verbatim>\<open>split\<close> is a
  TypeError; a \<^verbatim>\<open>version\<close> that is not a string has no function \<^verbatim>\<open>split\<close>, and the call
  is a TypeError. Only a string goes on.
\<close>

definition read_version :: "json \<Rightarrow> error + string" where
  "read_version packageJson =
     (case packageJson of
        JObject props \<Rightarrow>
          (case map_of props ''version'' of
             Some (JString v) \<Rightarrow> Inr v
           | _ \<Rightarrow> Inl TypeError)
      | _ \<Rightarrow> Inl TypeError)"

text \<open>\<^verbatim>\<open>let [major, minor, patch] = currentVersion.split(".").map(Number)\<close>\<close>

definition component :: "jsnum list \<Rightarrow> nat \<Rightarrow> jsval" where
  "component xs i = (if i < length xs then Num (xs ! i) else Undefined)"

definition parse_version :: "string \<Rightarrow> jsval \<times> jsval \<times> jsval" where
  "parse_version currentVersion =
     (let xs = map Number_js (split_dot currentVersion)
      in (component xs 0, component xs 1, component xs 2))"

definition invalid_version_type :: string where
  "invalid_version_type =
     [CHR 0xE2, CHR 0x9D, CHR 0x8E] @ '' Invalid version type. Use '' @ [CHR 0x22] @ ''patch''
       @ [CHR 0x22] @ '', '' @ [CHR 0x22] @ ''minor'' @ [CHR 0x22] @ '', or '' @ [CHR 0x22]
       @ ''major'' @ [CHR 0x22] @ ''.''"

text \<open>The \<^verbatim>\<open>switch (type)\<close> of \<^verbatim>\<open>src/update-project-version.ts\<close>.\<close>

definition switch_node :: "string \<Rightarrow> jsval \<times> jsval \<times> jsval \<Rightarrow> error + jsval \<times> jsval \<times> jsval" where
  "switch_node type v =
     (case v of (major, minor, patch) \<Rightarrow>
        if type = ''patch'' then Inr (major, minor, increment patch)
        else if type = ''minor'' then Inr (major, increment minor, Num (Fin 0))
        else if type = ''major'' then Inr (increment major, Num (Fin 0), Num (Fin 0))
        else Inl (Error invalid_version_type))"

text \<open>The \<^verbatim>\<open>switch (type)\<close> of \<^verbatim>\<open>src/unnamed/part_000\<close>, with the aliases.\<close>

definition switch_bun :: "string \<Rightarrow> jsval \<times> jsval \<times> jsval \<Rightarrow> error + jsval \<times> jsval \<times> jsval" where
  "switch_bun type v =
     (case v of (major, minor, patch) \<Rightarrow>
        if type = ''p'' \<or> type = ''patch'' then Inr (major, minor, increment patch)
        else if type = ''min'' \<or> type = ''minor'' then Inr (major, increment minor, Num (Fin 0))
        else if type = ''max'' \<or> type = ''major'' then Inr (increment major, Num (Fin 0), Num (Fin 0))
        else Inl (Error invalid_version_type))"

text \<open>The template literal \<^verbatim>\<open>`${major}.${minor}.${patch}`\<close>.\<close>

definition version_string :: "jsval \<times> jsval \<times> jsval \<Rightarrow> string" where
  "version_string v =
     (case v of (major, minor, patch) \<Rightarrow>
        ToString major @ ''.'' @ ToString minor @ ''.'' @ ToString patch)"

text \<open>
  \<^verbatim>\<open>packageJson.version = ...\<close> replaces the value of the property where it stands (a new
  property goes last). Only an object reaches the assignment (\<open>read_version\<close>).
\<close>

definition set_version :: "string \<Rightarrow> json \<Rightarrow> json" where
  "set_version v packageJson =
     (case packageJson of
        JObject props \<Rightarrow> JObject (AList.update ''version'' (JString v) props)
      | other \<Rightarrow> other)"

definition success_message :: "string \<Rightarrow> string \<Rightarrow> string" where
  "success_message currentVersion newVersion =
     [CHR 0xE2, CHR 0x9C, CHR 0x85] @ '' Successfully updated version: '' @ currentVersion
       @ '' '' @ [CHR 0xE2, CHR 0x86, CHR 0x92] @ '' '' @ newVersion"

text \<open>
  The end of both variants: the assignment, the write of the whole manifest
  (\<^verbatim>\<open>fs.writeFileSync\<close>, \<^verbatim>\<open>Bun.write\<close>) and \<^verbatim>\<open>console.log\<close>.
\<close>

definition store_version :: "JSON \<Rightarrow> json \<Rightarrow> string \<Rightarrow> string \<Rightarrow> world \<Rightarrow> (error + unit) \<times> world" where
  "store_version J packageJson currentVersion newVersion w =
     (case writeFileSync (stringify J (set_version newVersion packageJson)) (manifest w) of
        Inl e \<Rightarrow> (Inl e, w)
      | Inr f \<Rightarrow>
          (Inr (), w\<lparr>manifest := f,
                      stdout := stdout w @ [success_message currentVersion newVersion]\<rparr>))"

text \<open>
  \<^verbatim>\<open>updateVersion(type)\<close> of \<^verbatim>\<open>src/update-project-version.ts\<close>. The result is the error
  thrown, if any, and the world the call leaves.
\<close>

definition updateVersion_node :: "JSON \<Rightarrow> string \<Rightarrow> world \<Rightarrow> (error + unit) \<times> world" where
  "updateVersion_node J type w =
     (case readFileSync (manifest w) of
        Inl e \<Rightarrow> (Inl e, w)
      | Inr text \<Rightarrow>
          (case parse J text of
             None \<Rightarrow> (Inl SyntaxError, w)
           | Some packageJson \<Rightarrow>
               (case read_version packageJson of
                  Inl e \<Rightarrow> (Inl e, w)
                | Inr currentVersion \<Rightarrow>
                    (case switch_node type (parse_version currentVersion) of
                       Inl e \<Rightarrow> (Inl e, w)
                     | Inr v \<Rightarrow>
                         store_version J packageJson currentVersion (version_string v) w))))"

text \<open>\<^verbatim>\<open>updateVersion(type)\<close> of \<^verbatim>\<open>src/unnamed/part_000\<close>.\<close>

definition file_not_found :: string where
  "file_not_found = ''package.json file not found''"

definition updateVersion_bun :: "JSON \<Rightarrow> string \<Rightarrow> world \<Rightarrow> (error + unit) \<times> world" where
  "updateVersion_bun J type w =
     (if \<not> ToBoolean (file_exists (manifest w)) then (Inl (Error file_not_found), w)
      else
        (case file_json J (manifest w) of
           Inl e \<Rightarrow> (Inl e, w)
         | Inr packageJson \<Rightarrow>
             (case read_version packageJson of
                Inl e \<Rightarrow> (Inl e, w)
              | Inr currentVersion \<Rightarrow>
                  (case switch_bun type (parse_version currentVersion) of
                     Inl e \<Rightarrow> (Inl e, w)
                   | Inr v \<Rightarrow>
                       store_version J packageJson currentVersion (version_string v) w))))"

section \<open>\<^verbatim>\<open>startScript\<close>\<close>

text \<open>
  \<^verbatim>\<open>rl.question\<close> prints the prompt and calls back with the line read. The callback runs
  \<^verbatim>\<open>updateVersion(answer.trim())\<close>, prints the message of an error it catches, and in
  \<^verbatim>\<open>finally\<close> calls \<^verbatim>\<open>process.exit(1)\<close> (after \<^verbatim>\<open>rl.close()\<close> in the Node variant, which
  changes nothing of the world). The result is the final world and the exit code.
\<close>

definition prompt :: string where
  "prompt = ''Which version do you want to update (patch/minor/major)? ''"

definition finish :: "(error + unit) \<times> world \<Rightarrow> world \<times> nat" where
  "finish r =
     (case r of
        (Inl e, w) \<Rightarrow> (w\<lparr>stderr := stderr w @ [e]\<rparr>, 1)
      | (Inr u, w) \<Rightarrow> (w, 1))"

definition startScript_node :: "JSON \<Rightarrow> string \<Rightarrow> world \<Rightarrow> world \<times> nat" where
  "startScript_node J answer w =
     finish (updateVersion_node J (trim answer) (w\<lparr>stdout := stdout w @ [prompt]\<rparr>))"

definition startScript_bun :: "JSON \<Rightarrow> string \<Rightarrow> world \<Rightarrow> world \<times> nat" where
  "startScript_bun J answer w =
     finish (updateVersion_bun J (trim answer) (w\<lparr>stdout := stdout w @ [prompt]\<rparr>))"

section \<open>Notions used to state the properties\<close>

text \<open>The case labels of the two \<^verbatim>\<open>switch\<close> statements.\<close>

definition node_types :: "string set" where
  "node_types = {''patch'', ''minor'', ''major''}"

definition bun_types :: "string set" where
  "bun_types = {''p'', ''patch'', ''min'', ''minor'', ''max'', ''major''}"


text \<open>The manifest cannot be read: it is absent, or its read permission is off.\<close>

definition unreadable :: "manifest_file \<Rightarrow> bool" where
  "unreadable f = (case f of Absent \<Rightarrow> True | File r w text \<Rightarrow> \<not> r)"

text \<open>
  The increment rule in the words of the specification (section 4.1, step 4, with the
  aliases of section 6), on triples of natural numbers; the \<^verbatim>\<open>switch\<close> of the source is
  compared with it.
\<close>

definition spec_increment :: "string \<Rightarrow> nat \<times> nat \<times> nat \<Rightarrow> nat \<times> nat \<times> nat" where
  "spec_increment kind v =
     (case v of (M, N, P) \<Rightarrow>
        if kind = ''patch'' \<or> kind = ''p'' then (M, N, P + 1)
        else if kind = ''minor'' \<or> kind = ''min'' then (M, N + 1, 0)
        else if kind = ''major'' \<or> kind = ''max'' then (M + 1, 0, 0)
        else (M, N, P))"

text \<open>A triple of naturals as the three JavaScript numbers, and as a version string.\<close>

definition numbers :: "nat \<times> nat \<times> nat \<Rightarrow> jsval \<times> jsval \<times> jsval" where
  "numbers v = (case v of (M, N, P) \<Rightarrow> (Num (Fin (of_nat M)), Num (Fin (of_nat N)), Num (Fin (of_nat P))))"

definition version_text :: "nat \<times> nat \<times> nat \<Rightarrow> string" where
  "version_text v = (case v of (M, N, P) \<Rightarrow> decimal M @ ''.'' @ decimal N @ ''.'' @ decimal P)"

text \<open>
  A part of a well-formed version within the safe integers: decimal digits (leading
  zeros allowed) of a value of at most \<open>2 ^ 53 - 1\<close>, \<^verbatim>\<open>Number.MAX_SAFE_INTEGER\<close>.
\<close>

definition safe_part :: "string \<Rightarrow> bool" where
  "safe_part s = (digit_string s \<and> digits_value s < 9007199254740992)"

text \<open>
  The outcome of a successful update of a readable and writable manifest with the
  properties \<open>props\<close>: no error, the manifest rewritten with the new version, and the
  confirmation on the standard output.
\<close>

definition success :: "JSON \<Rightarrow> (string \<times> json) list \<Rightarrow> string \<Rightarrow> string \<Rightarrow> world \<Rightarrow> (error + unit) \<times> world" where
  "success J props currentVersion newVersion w =
     (Inr (), w\<lparr>manifest := File True True (stringify J (JObject (AList.update ''version'' (JString newVersion) props))),
                stdout := stdout w @ [success_message currentVersion newVersion]\<rparr>)"

subsection \<open>A concrete manifest\<close>

text \<open>
  For the concrete instances below: the manifests with a \<^verbatim>\<open>version\<close> and the \<^verbatim>\<open>name\<close> x, in
  the layout \<^verbatim>\<open>JSON.stringify(v, null, 2)\<close> prints, read and printed by a parser and a
  printer that know this one shape.
\<close>

definition example_prefix :: string where
  "example_prefix = ''{'' @ [CHR 0x0A] @ ''  \"version\": \"''"

definition example_suffix :: string where
  "example_suffix = ''\",'' @ [CHR 0x0A] @ ''  \"name\": \"x\"'' @ [CHR 0x0A] @ ''}''"

definition example_text :: "string \<Rightarrow> string" where
  "example_text v = example_prefix @ v @ example_suffix"

definition example_parse :: "string \<Rightarrow> json option" where
  "example_parse text =
     (let v = take (length text - length example_prefix - length example_suffix)
                (drop (length example_prefix) text)
      in if text = example_text v
         then Some (JObject [(''version'', JString v), (''name'', JString ''x'')])
         else None)"

definition example_stringify :: "json \<Rightarrow> string" where
  "example_stringify j =
     (case j of
        JObject [(k1, JString v), (k2, JString n)] \<Rightarrow>
          if k1 = ''version'' \<and> k2 = ''name'' \<and> n = ''x'' then example_text v else ''null''
      | _ \<Rightarrow> ''null'')"

definition example_JSON :: JSON where
  "example_JSON = \<lparr>parse = example_parse, stringify = example_stringify\<rparr>"

definition example_world :: "string \<Rightarrow> world" where
  "example_world v = \<lparr>manifest = File True True (example_text v), stdout = [], stderr = []\<rparr>"

section \<open>Auxiliary facts\<close>

subsection \<open>The control flow of \<^verbatim>\<open>updateVersion\<close>\<close>

lemma switch_node_Inr: "type \<in> node_types \<Longrightarrow> \<exists>v'. switch_node type v = Inr v'"
  by (cases v) (auto simp: switch_node_def node_types_def)

lemma switch_bun_Inr: "type \<in> bun_types \<Longrightarrow> \<exists>v'. switch_bun type v = Inr v'"
  by (cases v) (auto simp: switch_bun_def bun_types_def)

lemma switch_node_Inl: "type \<notin> node_types \<Longrightarrow> switch_node type v = Inl (Error invalid_version_type)"
  by (cases v) (auto simp: switch_node_def node_types_def)

lemma switch_bun_Inl: "type \<notin> bun_types \<Longrightarrow> switch_bun type v = Inl (Error invalid_version_type)"
  by (cases v) (auto simp: switch_bun_def bun_types_def)


lemma updateVersion_bun_unfold:
  "updateVersion_bun J type w =
     (case file_json J (manifest w) of
           Inl e \<Rightarrow> (Inl e, w)
         | Inr packageJson \<Rightarrow>
             (case read_version packageJson of
                Inl e \<Rightarrow> (Inl e, w)
              | Inr currentVersion \<Rightarrow>
                  (case switch_bun type (parse_version currentVersion) of
                     Inl e \<Rightarrow> (Inl e, w)
                   | Inr v \<Rightarrow>
                       store_version J packageJson currentVersion (version_string v) w)))"
  by (simp add: updateVersion_bun_def file_exists_def)

lemma strip_bom_no_mark: "take 3 text \<noteq> byte_order_mark \<Longrightarrow> strip_bom text = text"
  by (simp add: strip_bom_def)


lemma updateVersion_node_unfold:
  "updateVersion_node J type w =
     (case (case readFileSync (manifest w) of
              Inl e \<Rightarrow> Inl e
            | Inr text \<Rightarrow> (case parse J text of None \<Rightarrow> Inl SyntaxError | Some v \<Rightarrow> Inr v)) of
           Inl e \<Rightarrow> (Inl e, w)
         | Inr packageJson \<Rightarrow>
             (case read_version packageJson of
                Inl e \<Rightarrow> (Inl e, w)
              | Inr currentVersion \<Rightarrow>
                  (case switch_node type (parse_version currentVersion) of
                     Inl e \<Rightarrow> (Inl e, w)
                   | Inr v \<Rightarrow>
                       store_version J packageJson currentVersion (version_string v) w)))"
  by (simp add: updateVersion_node_def split: sum.splits option.splits)

lemma switch_bun_alias:
  "switch_bun ''p'' v = switch_bun ''patch'' v"
  "switch_bun ''min'' v = switch_bun ''minor'' v"
  "switch_bun ''max'' v = switch_bun ''major'' v"
  by (cases v; simp add: switch_bun_def)+

lemma messages_differ: "invalid_version_type \<noteq> file_not_found"
  by (simp add: invalid_version_type_def file_not_found_def)

lemma read_version_error: "read_version pj = Inl e \<Longrightarrow> e = TypeError"
  by (auto simp: read_version_def split: json.splits option.splits)

lemma switch_bun_error: "switch_bun type v = Inl e \<Longrightarrow> e = Error invalid_version_type"
  by (cases v) (auto simp: switch_bun_def split: if_splits)

lemma file_json_error:
  "file_json J f = Inl e \<Longrightarrow> e = SystemError ENOENT \<or> e = SystemError EACCES \<or> e = SyntaxError"
  by (auto simp: file_json_def readFileSync_def split: manifest_file.splits if_splits option.splits)

lemma store_version_error_kind:
  "fst (store_version J pj cur new w) = Inl e \<Longrightarrow> e = SystemError EACCES"
  by (auto simp: store_version_def writeFileSync_def split: sum.splits manifest_file.splits if_splits)

lemma updateVersion_bun_errors:
  assumes "fst (updateVersion_bun J type w) = Inl e"
  shows "e \<in> {SystemError ENOENT, SystemError EACCES, SyntaxError, TypeError, Error invalid_version_type}"
  using assms
  by (auto simp: updateVersion_bun_unfold split: sum.splits
      dest: file_json_error read_version_error switch_bun_error store_version_error_kind)

lemma readFileSync_unreadable:
  "unreadable f \<Longrightarrow> readFileSync f = Inl (SystemError (if f = Absent then ENOENT else EACCES))"
  by (auto simp: unreadable_def readFileSync_def split: manifest_file.splits)

lemma invalid_type_node:
  assumes "type \<notin> node_types"
  shows "snd (updateVersion_node J type w) = w"
    and "\<exists>e. fst (updateVersion_node J type w) = Inl e"
    and "readFileSync (manifest w) = Inr text \<Longrightarrow> parse J text = Some pj \<Longrightarrow>
         read_version pj = Inr v \<Longrightarrow>
         fst (updateVersion_node J type w) = Inl (Error invalid_version_type)"
  using assms
  by (auto simp: updateVersion_node_unfold switch_node_Inl split: sum.splits option.splits)

lemma invalid_type_bun:
  assumes "type \<notin> bun_types"
  shows "snd (updateVersion_bun J type w) = w"
    and "\<exists>e. fst (updateVersion_bun J type w) = Inl e"
    and "file_json J (manifest w) = Inr pj \<Longrightarrow> read_version pj = Inr v \<Longrightarrow>
         fst (updateVersion_bun J type w) = Inl (Error invalid_version_type)"
  using assms
  by (auto simp: updateVersion_bun_unfold switch_bun_Inl split: sum.splits)

lemma store_version_writable:
  assumes "manifest w = File r True text"
  shows "store_version J pj cur new w =
           (Inr (), w\<lparr>manifest := File r True (stringify J (set_version new pj)),
                      stdout := stdout w @ [success_message cur new]\<rparr>)"
  using assms by (simp add: store_version_def writeFileSync_def)

lemma update_version_frame:
  assumes "map_of props ''version'' = Some old"
  shows "map fst (AList.update ''version'' new props) = map fst props"
    and "k \<noteq> ''version'' \<Longrightarrow> map_of (AList.update ''version'' new props) k = map_of props k"
    and "map_of (AList.update ''version'' new props) ''version'' = Some new"
  using assms by (auto simp: update_keys update_conv' dest: map_of_SomeD intro: rev_image_eqI)

subsection \<open>Digits\<close>

lemma digit_char_props:
  assumes "d < 10"
  shows "is_digit (digit_char d)" and "digit_value (digit_char d) = d"
proof -
  from assms have "d \<in> {0, 1, 2, 3, 4, 5, 6, 7, 8, 9}" by auto
  then show "is_digit (digit_char d)" and "digit_value (digit_char d) = d"
    by (auto simp: is_digit_def digit_char_def digit_value_def)
qed

lemma decimal_digits: "\<forall>c\<in>set (decimal n). is_digit c"
proof (induction n rule: decimal.induct)
  case (1 n)
  show ?case
  proof (cases "n < 10")
    case True
    then show ?thesis by (simp add: decimal.simps [of n] digit_char_props)
  next
    case False
    with 1 have IH: "\<forall>c\<in>set (decimal (n div 10)). is_digit c" by simp
    have "n mod 10 < 10" by simp
    with False IH show ?thesis by (simp add: decimal.simps [of n] digit_char_props)
  qed
qed

lemma decimal_not_Nil: "decimal n \<noteq> []"
  by (simp add: decimal.simps [of n])

lemma digits_value_snoc: "digits_value (s @ [c]) = 10 * digits_value s + digit_value c"
  by (simp add: digits_value_def)

lemma digits_value_small: "n < 10 \<Longrightarrow> digits_value (decimal n) = n"
  by (simp add: decimal.simps [of n] digits_value_def digit_char_props)

lemma digits_value_step:
  "\<not> n < 10 \<Longrightarrow> digits_value (decimal (n div 10)) = n div 10 \<Longrightarrow> digits_value (decimal n) = n"
  using mod_less_divisor [of 10 n]
  by (simp add: decimal.simps [of n] digits_value_snoc digit_char_props)

lemma digits_value_decimal: "digits_value (decimal n) = n"
proof (induction n rule: decimal.induct)
  case (1 n)
  show ?case
  proof (cases "n < 10")
    case True
    then show ?thesis by (rule digits_value_small)
  next
    case False
    show ?thesis by (rule digits_value_step [OF False 1 [OF False]])
  qed
qed

lemma digit_string_iff: "digit_string s \<longleftrightarrow> s \<noteq> [] \<and> (\<forall>c\<in>set s. is_digit c)"
  by (auto simp: digit_string_def dropWhile_eq_Nil_conv)

lemma digit_string_decimal: "digit_string (decimal n)"
  unfolding digit_string_iff using decimal_not_Nil [of n] decimal_digits [of n] by blast

lemma dot_not_digit: "\<not> is_digit (CHR ''.'')"
  by (simp add: is_digit_def)

lemma digit_string_no_dot: "digit_string s \<Longrightarrow> CHR ''.'' \<notin> set s"
  unfolding digit_string_iff using dot_not_digit by blast

subsection \<open>Splitting\<close>


lemma split_dot_no_dot: "CHR ''.'' \<notin> set s \<Longrightarrow> split_dot s = [s]"
  by (induction s) auto

lemma split_dot_append:
  "CHR ''.'' \<notin> set a \<Longrightarrow> split_dot (a @ CHR ''.'' # b) = a # split_dot b"
  by (induction a) (auto split: list.splits)

lemma split_dot_three:
  assumes "CHR ''.'' \<notin> set a" "CHR ''.'' \<notin> set b" "CHR ''.'' \<notin> set c"
  shows "split_dot (a @ ''.'' @ b @ ''.'' @ c) = [a, b, c]"
  using assms by (simp add: split_dot_append split_dot_no_dot)

subsection \<open>White space\<close>

lemma white_space_ends:
  "list_all (\<lambda>w. w \<noteq> [] \<and> \<not> is_digit (hd w) \<and> \<not> is_digit (last w)) white_space"
  by (simp add: white_space_def is_digit_def)

lemma white_space_first: "w \<in> set white_space \<Longrightarrow> w \<noteq> [] \<and> \<not> is_digit (hd w)"
  using white_space_ends by (simp add: list_all_iff)

lemma white_space_last: "w \<in> set white_space \<Longrightarrow> \<not> is_digit (last w)"
  using white_space_ends by (simp add: list_all_iff)

lemma strip_fuel_digit:
  assumes "s \<noteq> []" "is_digit (hd s)" "\<And>w. w \<in> set ws \<Longrightarrow> w \<noteq> [] \<Longrightarrow> \<not> is_digit (hd w)"
  shows "strip_fuel k ws s = s"
proof (cases k)
  case 0
  then show ?thesis by simp
next
  case (Suc j)
  have "find (\<lambda>w. w \<noteq> [] \<and> take (length w) s = w) ws = None"
  proof (rule ccontr)
    assume "find (\<lambda>w. w \<noteq> [] \<and> take (length w) s = w) ws \<noteq> None"
    then obtain w where w: "w \<in> set ws" "w \<noteq> []" "take (length w) s = w"
      by (auto simp: find_None_iff)
    from w(2,3) assms(1) have "hd w = hd s"
      by (metis hd_take length_greater_0_conv)
    with assms(2) assms(3) [OF w(1,2)] show False by simp
  qed
  with Suc show ?thesis by simp
qed

lemma trim_digit_string:
  assumes "digit_string s"
  shows "trim s = s"
proof -
  from assms have s: "s \<noteq> []" "is_digit (hd s)" "is_digit (last s)"
    by (auto simp: digit_string_iff)
  have 1: "strip white_space s = s"
    unfolding strip_def using s white_space_first by (intro strip_fuel_digit) auto
  have 2: "strip (map rev white_space) (rev s) = rev s"
    unfolding strip_def
  proof (rule strip_fuel_digit)
    show "rev s \<noteq> []" using s by simp
    show "is_digit (hd (rev s))" using s by (simp add: hd_rev)
    fix w assume "w \<in> set (map rev white_space)" "w \<noteq> []"
    then show "\<not> is_digit (hd w)"
      using white_space_last white_space_first by (auto simp: hd_rev)
  qed
  show ?thesis by (simp add: trim_def 1 2)
qed

subsection \<open>Rounding\<close>

lemma bit_length_bounds:
  "0 < n \<Longrightarrow> 0 < bit_length n \<and> 2 ^ (bit_length n - 1) \<le> n \<and> n < 2 ^ bit_length n"
proof (induction n rule: bit_length.induct)
  case (1 n)
  show ?case
  proof (cases "n = 1")
    case True
    then show ?thesis by (simp add: bit_length.simps [of 1] bit_length.simps [of 0])
  next
    case False
    with 1(2) have pos: "0 < n div 2" by simp
    from 1(2) have "\<not> n \<le> 0" by simp
    from 1(1) [OF this pos]
    have IH: "0 < bit_length (n div 2)" "2 ^ (bit_length (n div 2) - 1) \<le> n div 2"
      "n div 2 < 2 ^ bit_length (n div 2)" by simp_all
    obtain k where k: "bit_length (n div 2) = Suc k"
      using IH(1) by (cases "bit_length (n div 2)") auto
    have bl: "bit_length n = Suc (Suc k)"
      using 1(2) k by (simp add: bit_length.simps [of n])
    from IH k have "2 ^ k \<le> n div 2" "n div 2 < 2 * 2 ^ k" by simp_all
    then have "2 * 2 ^ k \<le> n" "n < 2 * (2 * 2 ^ k)" by linarith+
    then show ?thesis by (simp add: bl)
  qed
qed

lemma bit_length_one: "bit_length 1 = 1"
  by (simp add: bit_length.simps [of 1] bit_length.simps [of 0])

lemma ilog2_of_int:
  assumes "0 < n"
  shows "ilog2 (of_int n) = int (bit_length n) - 1"
proof -
  from bit_length_bounds [OF assms] obtain k where k: "bit_length n = Suc k" "2 ^ k \<le> n"
    by (cases "bit_length n") auto
  have "(2::rat) powi int k \<le> of_int n"
    using k(2) by (metis of_int_le_iff of_int_numeral of_int_power power_int_of_nat)
  then show ?thesis
    by (simp add: ilog2_def bit_length_one k(1))
qed

lemma round_half_even_of_int: "round_half_even (of_int k) = k"
  by (simp add: round_half_even_def)

lemma round_double_exact:
  assumes "q \<noteq> 0" and "q / 2 powi (max (ilog2 \<bar>q\<bar> - 52) (- 1074)) = of_int k" and "\<bar>q\<bar> < 2 ^ 1024"
  shows "round_double q = Fin q"
proof -
  define e where "e = max (ilog2 \<bar>q\<bar> - 52) (- 1074)"
  have qk: "q / 2 powi e = of_int k"
    using assms(2) by (simp add: e_def)
  have "(q / 2 powi e) * 2 powi e = q"
    by simp
  then have v: "of_int (round_half_even (q / 2 powi e)) * 2 powi e = q"
    by (simp add: qk round_half_even_of_int)
  from assms(3) have "\<not> 2 ^ 1024 \<le> q" "\<not> q \<le> - (2 ^ 1024)" by linarith+
  with assms(1) v show ?thesis
    by (simp add: round_double_def Let_def flip: e_def)
qed

lemma round_double_nat:
  assumes bound: "n \<le> 9007199254740992"
  shows "round_double (of_nat n) = Fin (of_nat n)"
proof (cases "n = 0")
  case True
  then show ?thesis by (simp add: round_double_def)
next
  case False
  then have pos: "0 < int n" by simp
  from bound have assms: "n \<le> 2 ^ 53" by simp
  from bit_length_bounds [OF pos] obtain k where k: "bit_length (int n) = Suc k" "2 ^ k \<le> int n"
    by (cases "bit_length (int n)") auto
  have le: "(2::int) ^ k \<le> 2 ^ 53" using k(2) assms
    by (metis (mono_tags, opaque_lifting) of_nat_le_iff of_nat_numeral of_nat_power order_trans)
  have k53: "k \<le> 53"
    by (rule power_le_imp_le_exp [where a = "2::int"]) (simp, fact le)
  have il: "ilog2 (of_nat n) = int k"
    using ilog2_of_int [OF pos] k(1) by simp
  have e: "max (ilog2 (of_nat n :: rat) - 52) (- 1074) = int k - 52"
    by (simp add: il)
  have "\<exists>j. (of_nat n :: rat) / 2 powi (int k - 52) = of_int j"
  proof (cases "k \<le> 52")
    case True
    then have "(2::rat) powi (int k - 52) = inverse (2 ^ (52 - k))"
      by (simp add: power_int_def nat_diff_distrib' power_one_over inverse_eq_divide)
    then have "(of_nat n :: rat) / 2 powi (int k - 52) = of_int (int n * 2 ^ (52 - k))"
      by (simp add: divide_inverse)
    then show ?thesis by blast
  next
    case False
    with k53 have k: "k = 53" by simp
    with \<open>2 ^ k \<le> int n\<close> assms have n: "n = 2 ^ 53"
      by (metis (mono_tags, opaque_lifting) le_antisym of_nat_le_iff of_nat_numeral of_nat_power)
    have "(of_nat n :: rat) / 2 powi (int k - 52) = of_int (2 ^ 52)"
      by (simp add: k n)
    then show ?thesis by blast
  qed
  then obtain j where j: "(of_nat n :: rat) / 2 powi (int k - 52) = of_int j" by blast
  have lt: "\<bar>of_nat n :: rat\<bar> < 2 ^ 1024"
  proof -
    have "(of_nat n :: rat) \<le> of_nat (2 ^ 53)" using assms by (simp only: of_nat_le_iff)
    then show ?thesis by simp
  qed
  show ?thesis
    by (rule round_double_exact [where k = j]) (use False j lt in \<open>simp_all add: e\<close>)
qed

subsection \<open>Reading and printing digit strings\<close>

lemma digit_string_takeWhile:
  assumes "digit_string s"
  shows "takeWhile is_digit s = s" and "dropWhile is_digit s = []"
  using assms by (simp_all add: digit_string_iff)

lemma digit_string_hd:
  assumes "digit_string s"
  shows "is_digit (hd s)"
  using assms by (simp add: digit_string_iff)

lemma not_digit_chars:
  "\<not> is_digit (CHR ''x'')" "\<not> is_digit (CHR ''X'')" "\<not> is_digit (CHR ''o'')" "\<not> is_digit (CHR ''O'')"
  "\<not> is_digit (CHR ''b'')" "\<not> is_digit (CHR ''B'')" "\<not> is_digit (CHR ''+'')" "\<not> is_digit (CHR ''-'')"
  "\<not> is_digit (CHR ''I'')"
  by (simp_all add: is_digit_def)

lemma digit_string_take2:
  assumes "digit_string s" "\<not> is_digit c"
  shows "take 2 s \<noteq> [CHR ''0'', c]"
proof
  assume "take 2 s = [CHR ''0'', c]"
  then have "c \<in> set (take 2 s)" by simp
  then have "c \<in> set s" by (rule in_set_takeD)
  with assms show False by (simp add: digit_string_iff)
qed

lemma unsigned_decimal_digits:
  assumes "digit_string s"
  shows "unsigned_decimal s = round_double (of_nat (digits_value s))"
proof -
  have "s \<noteq> ''Infinity''"
    using digit_string_hd [OF assms] not_digit_chars(9) by auto
  then show ?thesis
    using assms
    by (simp add: unsigned_decimal_def digit_string_takeWhile exponent_part_def digit_string_iff)
qed

lemma Number_js_digits:
  assumes "digit_string s"
  shows "Number_js s = round_double (of_nat (digits_value s))"
proof -
  have hd: "hd s \<noteq> CHR ''+''" "hd s \<noteq> CHR ''-''"
    using digit_string_hd [OF assms] not_digit_chars by auto
  have "s \<noteq> []" using assms by (simp add: digit_string_iff)
  then show ?thesis
    using digit_string_take2 [OF assms] not_digit_chars hd
    by (simp add: Number_js_def trim_digit_string [OF assms] unsigned_decimal_digits [OF assms])
qed

lemma Number_js_safe:
  assumes "digit_string s" "digits_value s \<le> 9007199254740992"
  shows "Number_js s = Fin (of_nat (digits_value s))"
  using assms by (simp add: Number_js_digits round_double_nat)

subsection \<open>Printing an integer of at most \<open>2 ^ 53\<close>\<close>

lemma round_half_even_floor: "\<lfloor>x\<rfloor> \<le> round_half_even x"
  by (simp add: round_half_even_def Let_def)

lemma round_half_even_ge: "of_int a \<le> x \<Longrightarrow> a \<le> round_half_even x"
  using round_half_even_floor [of x] by (meson le_floor_iff order_trans)

lemma round_double_large:
  assumes "9007199254740994 \<le> v"
  shows "round_double (of_int v) = PosInf \<or> (\<exists>x. round_double (of_int v) = Fin x \<and> 9007199254740992 < x)"
proof -
  have pos: "0 < v" using assms by simp
  from bit_length_bounds [OF pos] obtain k where k: "bit_length v = Suc k" "2 ^ k \<le> v" "v < 2 ^ Suc k"
    by (cases "bit_length v") auto
  have "(2::int) ^ 53 < 2 ^ Suc k" using k(3) assms by simp
  then have "53 < Suc k" by (simp only: power_strict_increasing_iff)
  then have k53: "53 \<le> k" by simp
  have il: "ilog2 (of_int v) = int k"
    using ilog2_of_int [OF pos] k(1) by simp
  define e where "e = k - 52"
  have e1: "1 \<le> e" using k53 by (simp add: e_def)
  have emax: "max (ilog2 \<bar>of_int v\<bar> - 52) (- 1074) = int e"
    using pos k53 by (simp add: il e_def)
  have p: "(2::rat) powi int e = 2 ^ e" by simp
  define m where "m = round_half_even (of_int v / 2 ^ e)"
  have m_lower: "9007199254740992 < of_int m * (2::rat) ^ e"
  proof (cases "k = 53")
    case True
    then have e: "e = 1" by (simp add: e_def)
    have "of_int 4503599627370497 \<le> (of_int v :: rat) / 2 ^ e"
      using assms by (simp add: e)
    then have "4503599627370497 \<le> m" unfolding m_def by (rule round_half_even_ge)
    then have "(4503599627370497 :: rat) \<le> of_int m" by (metis of_int_le_iff of_int_numeral)
    then show ?thesis by (simp add: e)
  next
    case False
    with k53 have k54: "54 \<le> k" by simp
    define c :: rat where "c = 2 ^ 52"
    have ke: "k = 52 + e" using k53 by (simp add: e_def)
    have pk: "(2::rat) ^ k = c * 2 ^ e" unfolding c_def by (subst ke) (rule power_add)
    have "(2::rat) ^ k \<le> of_int v"
      using k(2) by (metis of_int_le_iff of_int_numeral of_int_power)
    then have "c * 2 ^ e \<le> of_int v" by (simp only: pk)
    then have "c \<le> (of_int v :: rat) / 2 ^ e"
      by (simp add: pos_le_divide_eq)
    then have "of_int (2 ^ 52) \<le> (of_int v :: rat) / 2 ^ e" by (simp add: c_def)
    then have "2 ^ 52 \<le> m" unfolding m_def by (rule round_half_even_ge)
    then have "c \<le> of_int m" unfolding c_def by (metis of_int_le_iff of_int_numeral of_int_power)
    then have "c * 2 ^ e \<le> of_int m * 2 ^ e" by simp
    then have "(2::rat) ^ k \<le> of_int m * 2 ^ e" by (simp only: pk)
    moreover have "(2::rat) ^ 54 \<le> 2 ^ k"
      using k54 by (intro power_increasing) simp_all
    ultimately have "(2::rat) ^ 54 \<le> of_int m * 2 ^ e" by linarith
    then show ?thesis by simp
  qed
  have "v \<noteq> 0" using pos by simp
  then show ?thesis
    using m_lower
    by (simp add: round_double_def Let_def emax [simplified] p flip: m_def)
qed

lemma round_double_large_neq:
  assumes "9007199254740994 \<le> v" "n \<le> 9007199254740992"
  shows "round_double (of_int v) \<noteq> Fin (of_nat n)"
proof -
  have "(of_nat n :: rat) \<le> of_nat 9007199254740992" using assms(2) by (simp only: of_nat_le_iff)
  then have "(of_nat n :: rat) \<le> 9007199254740992" by simp
  with round_double_large [OF assms(1)] show ?thesis by auto
qed

lemma decimal_length_bounds:
  "0 < n \<Longrightarrow> 10 ^ (length (decimal n) - 1) \<le> n \<and> n < 10 ^ length (decimal n)"
proof (induction n rule: decimal.induct)
  case (1 n)
  show ?case
  proof (cases "n < 10")
    case True
    with 1(2) show ?thesis by (simp add: decimal.simps [of n])
  next
    case False
    then have pos: "0 < n div 10" by simp
    from 1(1) [OF False pos]
    have IH: "10 ^ (length (decimal (n div 10)) - 1) \<le> n div 10" "n div 10 < 10 ^ length (decimal (n div 10))"
      by simp_all
    obtain l where l: "length (decimal (n div 10)) = Suc l"
      using decimal_not_Nil [of "n div 10"] by (cases "decimal (n div 10)") auto
    have len: "length (decimal n) = Suc (Suc l)"
      using False l by (simp add: decimal.simps [of n])
    from IH l have "10 ^ l \<le> n div 10" "n div 10 < 10 * 10 ^ l" by simp_all
    then have "10 * 10 ^ l \<le> n" "n < 10 * (10 * 10 ^ l)" by linarith+
    then show ?thesis by (simp add: len)
  qed
qed

lemma decimal_times_10: "0 < m \<Longrightarrow> decimal (m * 10) = decimal m @ ''0''"
  by (simp add: decimal.simps [of "m * 10"] digit_char_def)

lemma decimal_times_power: "0 < m \<Longrightarrow> decimal (m * 10 ^ j) = decimal m @ replicate j (CHR ''0'')"
proof (induction j)
  case 0
  then show ?case by simp
next
  case (Suc j)
  have "m * 10 ^ Suc j = (m * 10 ^ j) * 10" by simp
  then have "decimal (m * 10 ^ Suc j) = decimal ((m * 10 ^ j) * 10)"
    by (rule arg_cong)
  also have "\<dots> = decimal (m * 10 ^ j) @ ''0''"
    using Suc.prems by (intro decimal_times_10) simp
  also have "\<dots> = decimal m @ replicate (Suc j) (CHR ''0'')"
    using Suc by (simp add: replicate_append_same)
  finally show ?case .
qed

lemma powi_10_down: "k \<le> L \<Longrightarrow> (10::rat) powi (int k - int L) = 1 / 10 ^ (L - k)"
  by (cases "k = L") (simp_all add: power_int_def nat_diff_distrib' power_one_over inverse_eq_divide)

lemma powi_10_up: "k \<le> L \<Longrightarrow> (10::rat) powi (int L - int k) = 10 ^ (L - k)"
  by (simp add: power_int_def nat_diff_distrib')

lemma candidate_nat:
  assumes n: "0 < n" "n \<le> 9007199254740992" and k: "k \<le> L"
  shows "candidate (of_nat n) (int L) (int k) =
           (if 10 ^ (L - k) dvd n then Some (int (n div 10 ^ (L - k))) else None)"
proof -
  define p :: nat where "p = 10 ^ (L - k)"
  have p0: "0 < p" by (simp add: p_def)
  have sc: "(of_nat n :: rat) * 10 powi (int k - int L) = of_nat n / of_nat p"
    by (simp add: powi_10_down [OF k] p_def)
  have up: "(10 :: rat) powi (int L - int k) = of_nat p"
    by (simp add: powi_10_up [OF k] p_def)
  have lo: "\<lfloor>(of_nat n :: rat) / of_nat p\<rfloor> = int (n div p)"
    by (rule floor_divide_of_nat_eq)
  have val: "of_int s * (of_nat p :: rat) = of_int (s * int p)" for s
    by simp
  show ?thesis
  proof (cases "p dvd n")
    case True
    then obtain c where c: "n = p * c" by (rule dvdE)
    have eq: "(of_nat n :: rat) / of_nat p = of_nat (n div p)"
      using p0 by (simp add: c)
    have hi: "\<lceil>(of_nat n :: rat) / of_nat p\<rceil> = int (n div p)"
      by (simp add: eq)
    have np: "int (n div p) * int p = int n"
      using True by (metis dvd_div_mult_self of_nat_mult)
    have ok: "round_double (of_int (int (n div p)) * of_nat p) = Fin (of_nat n)"
      unfolding val np using round_double_nat [OF n(2)] by simp
    show ?thesis
      using True ok by (simp add: candidate_def Let_def sc up lo hi flip: p_def)
  next
    case False
    then have frac: "(of_nat n :: rat) / of_nat p \<noteq> of_int \<lfloor>(of_nat n :: rat) / of_nat p\<rfloor>"
      unfolding lo using p0
      by (metis dvd_triv_right nonzero_divide_eq_eq of_int_of_nat_eq of_nat_0_eq_iff of_nat_eq_iff of_nat_mult less_numeral_extra(3))
    have hi: "\<lceil>(of_nat n :: rat) / of_nat p\<rceil> = int (n div p) + 1"
      using frac by (simp add: ceiling_altdef lo)
    have lt: "n div p * p < n"
      using False by (metis dvd_triv_right div_times_less_eq_dividend le_neq_implies_less)
    have gt: "n < (n div p + 1) * p"
      using p0 by (metis Suc_eq_plus1 dividend_less_div_times mult.commute mult_Suc)
    have nlo: "round_double (of_int (int (n div p)) * of_nat p) \<noteq> Fin (of_nat n)"
    proof -
      have le: "n div p * p \<le> 9007199254740992" using lt n(2) by simp
      have t: "of_int (int (n div p)) * (of_nat p :: rat) = of_nat (n div p * p)" by simp
      have ne: "(of_nat (n div p * p) :: rat) \<noteq> of_nat n"
        using lt by (simp only: of_nat_eq_iff)
      show ?thesis
        unfolding t round_double_nat [OF le] jsnum.inject by (rule ne)
    qed
    have nhi: "round_double (of_int (int (n div p) + 1) * of_nat p) \<noteq> Fin (of_nat n)"
    proof (cases "(n div p + 1) * p \<le> 9007199254740992")
      case True
      have t: "of_int (int (n div p) + 1) * (of_nat p :: rat) = of_nat ((n div p + 1) * p)"
        by (simp add: algebra_simps)
      have ne: "(of_nat ((n div p + 1) * p) :: rat) \<noteq> of_nat n"
        using gt by (simp only: of_nat_eq_iff)
      show ?thesis
        unfolding t round_double_nat [OF True] jsnum.inject by (rule ne)
    next
      case big: False
      have "p \<noteq> 1" using False by auto
      then have "L - k \<noteq> 0" by (auto simp: p_def)
      then obtain j where j: "L - k = Suc j" by (cases "L - k") auto
      have "even p" by (simp add: p_def j)
      then have "even ((n div p + 1) * p)" by simp
      with big have "9007199254740994 \<le> (n div p + 1) * p" by presburger
      then have "9007199254740994 \<le> (int (n div p) + 1) * int p"
        by (metis (mono_tags, opaque_lifting) of_nat_1 of_nat_add of_nat_le_iff of_nat_mult of_nat_numeral)
      from round_double_large_neq [OF this n(2)] show ?thesis unfolding val .
    qed
    show ?thesis
      using False nlo nhi by (simp add: candidate_def Let_def sc up lo hi flip: p_def)
  qed
qed

lemma shortest_nat:
  assumes n: "0 < n" "n \<le> 9007199254740992"
  shows "1 \<le> k \<Longrightarrow> k \<le> L \<Longrightarrow> L - k < fuel \<Longrightarrow>
         \<exists>ks. k \<le> ks \<and> ks \<le> L \<and> 10 ^ (L - ks) dvd n \<and>
              shortest (of_nat n) (int L) fuel (int k) = (int (n div 10 ^ (L - ks)), int ks)"
proof (induction fuel arbitrary: k)
  case 0
  then show ?case by simp
next
  case (Suc fuel)
  show ?case
  proof (cases "10 ^ (L - k) dvd n")
    case True
    then have "shortest (of_nat n) (int L) (Suc fuel) (int k) = (int (n div 10 ^ (L - k)), int k)"
      by (simp add: candidate_nat [OF n Suc.prems(2)])
    with True Suc.prems show ?thesis by blast
  next
    case False
    then have "k \<noteq> L" by auto
    with Suc.prems have k: "1 \<le> Suc k" "Suc k \<le> L" "L - Suc k < fuel" by simp_all
    from Suc.IH [OF k] obtain ks where ks: "Suc k \<le> ks" "ks \<le> L" "10 ^ (L - ks) dvd n"
      "shortest (of_nat n) (int L) fuel (int (Suc k)) = (int (n div 10 ^ (L - ks)), int ks)"
      by blast
    have "shortest (of_nat n) (int L) (Suc fuel) (int k) = shortest (of_nat n) (int L) fuel (int (Suc k))"
      using False by (simp add: candidate_nat [OF n Suc.prems(2)] add.commute)
    with ks show ?thesis by (intro exI [of _ ks]) simp
  qed
qed

lemma decimal_length_16:
  assumes "0 < n" "n \<le> 9007199254740992"
  shows "1 \<le> length (decimal n)" "length (decimal n) \<le> 16"
proof -
  show "1 \<le> length (decimal n)"
    using decimal_not_Nil [of n] by (cases "decimal n") auto
  from decimal_length_bounds [OF assms(1)] assms(2)
  have "(10::nat) ^ (length (decimal n) - 1) < 10 ^ 16" by simp
  then have "length (decimal n) - 1 < 16" by (simp only: power_strict_increasing_iff)
  then show "length (decimal n) \<le> 16" by simp
qed

lemma positive_toString_nat:
  assumes n: "0 < n" "n \<le> 9007199254740992"
  shows "positive_toString (of_nat n) = decimal n"
proof -
  define L where "L = length (decimal n)"
  have L: "1 \<le> L" "L \<le> 16" using decimal_length_16 [OF n] by (simp_all add: L_def)
  have d: "decimal_exponent (of_nat n) = int L"
    using n(1) by (simp add: decimal_exponent_def L_def)
  have "\<exists>ks. 1 \<le> ks \<and> ks \<le> L \<and> 10 ^ (L - ks) dvd n \<and>
      shortest (of_nat n) (int L) 16 (int 1) = (int (n div 10 ^ (L - ks)), int ks)"
    by (rule shortest_nat [OF n]) (use L in simp_all)
  then obtain ks where ks: "1 \<le> ks" "ks \<le> L" "10 ^ (L - ks) dvd n"
    "shortest (of_nat n) (int L) 16 1 = (int (n div 10 ^ (L - ks)), int ks)"
    by auto
  define p :: nat where "p = 10 ^ (L - ks)"
  define s where "s = n div p"
  have sp: "s * p = n" using ks(3) by (simp add: s_def p_def)
  have s0: "0 < s" using sp n(1) by (cases s) auto
  have "n < 10 ^ L" using decimal_length_bounds [OF n(1)] by (simp add: L_def)
  also have "\<dots> = 10 ^ ks * p" using ks(2) by (simp add: p_def flip: power_add)
  finally have "s * p < 10 ^ ks * p" by (simp add: sp)
  then have slt: "s < 10 ^ ks" by simp
  then have ne: "int s \<noteq> 10 ^ ks"
    by (metis of_nat_less_iff of_nat_numeral of_nat_power less_irrefl)
  have out: "decimal s @ replicate (L - ks) (CHR ''0'') = decimal n"
    using decimal_times_power [OF s0, of "L - ks"] by (simp add: sp flip: p_def)
  show ?thesis
    using ks(1,2) L ne out
    by (simp add: positive_toString_def d ks(4) Let_def nat_diff_distrib' flip: p_def s_def)
qed

lemma Number_toString_nat:
  assumes "n \<le> 9007199254740992"
  shows "Number_toString (Fin (of_nat n)) = decimal n"
proof (cases "n = 0")
  case True
  then show ?thesis by (simp add: decimal.simps [of 0] digit_char_def)
next
  case False
  then have "0 < n" by simp
  from positive_toString_nat [OF this assms] False show ?thesis by simp
qed

subsection \<open>Well-formed versions within the safe integers\<close>

lemma js_inc_nat:
  assumes "n < 9007199254740992"
  shows "js_inc (Fin (of_nat n)) = Fin (of_nat (Suc n))"
proof -
  from assms have "Suc n \<le> 9007199254740992" by simp
  from round_double_nat [OF this] show ?thesis by (simp add: add.commute)
qed

lemma parse_version_three:
  assumes "digit_string a" "digit_string b" "digit_string c"
  shows "parse_version (a @ ''.'' @ b @ ''.'' @ c) = (Num (Number_js a), Num (Number_js b), Num (Number_js c))"
  using split_dot_three [of a b c] assms
  by (simp add: parse_version_def component_def digit_string_no_dot)

lemma bit_length_eq:
  assumes "2 ^ k \<le> n" "n < 2 ^ Suc k"
  shows "bit_length n = Suc k"
proof -
  have pos: "0 < n" using assms(1) by (smt (verit) zero_less_power)
  from bit_length_bounds [OF pos] obtain j where j: "bit_length n = Suc j" "2 ^ j \<le> n" "n < 2 ^ Suc j"
    by (cases "bit_length n") auto
  have "(2::int) ^ j < 2 ^ Suc k" using j(2) assms(2) by linarith
  then have "j < Suc k" by (simp only: power_strict_increasing_iff) 
  moreover have "(2::int) ^ k < 2 ^ Suc j" using j(3) assms(1) by linarith
  then have "k < Suc j" by (simp only: power_strict_increasing_iff)
  ultimately show ?thesis using j(1) by simp
qed

lemma round_double_tie: "round_double (2 ^ 53 + 1) = Fin (2 ^ 53)"
proof -
  have bl: "bit_length 9007199254740993 = 54"
    using bit_length_eq [of 53 9007199254740993] by simp
  have "ilog2 (of_int 9007199254740993) = 53"
    by (subst ilog2_of_int) (simp_all add: bl)
  then have il: "ilog2 9007199254740993 = 53" by simp
  have fl: "\<lfloor>9007199254740993 / (2::rat)\<rfloor> = 4503599627370496"
    by (simp add: floor_eq_iff)
  have rh: "round_half_even (9007199254740993 / 2) = 4503599627370496"
    by (simp add: round_half_even_def Let_def fl)
  show ?thesis
    by (simp add: round_double_def Let_def il rh)
qed

lemma js_inc_tie: "js_inc (Fin (2 ^ 53)) = Fin (2 ^ 53)"
  using round_double_tie by simp

lemma parse_version_safe:
  assumes "safe_part a" "safe_part b" "safe_part c"
  shows "parse_version (a @ ''.'' @ b @ ''.'' @ c) = numbers (digits_value a, digits_value b, digits_value c)"
proof -
  from assms have d: "digit_string a" "digit_string b" "digit_string c"
    and v: "digits_value a \<le> 9007199254740992" "digits_value b \<le> 9007199254740992"
      "digits_value c \<le> 9007199254740992"
    by (simp_all add: safe_part_def)
  show ?thesis
    by (simp only: parse_version_three [OF d] Number_js_safe [OF d(1) v(1)]
        Number_js_safe [OF d(2) v(2)] Number_js_safe [OF d(3) v(3)] numbers_def prod.case)
qed

lemma increment_nat: "n < 9007199254740992 \<Longrightarrow> increment (Num (Fin (of_nat n))) = Num (Fin (of_nat (n + 1)))"
  using js_inc_nat [of n] by (simp add: increment_def)

lemma switch_node_numbers:
  assumes "M < 9007199254740992" "N < 9007199254740992" "P < 9007199254740992" "type \<in> node_types"
  shows "switch_node type (numbers (M, N, P)) = Inr (numbers (spec_increment type (M, N, P)))"
  using assms
  by (auto simp: node_types_def switch_node_def numbers_def spec_increment_def increment_nat)

lemma switch_bun_numbers:
  assumes "M < 9007199254740992" "N < 9007199254740992" "P < 9007199254740992" "type \<in> bun_types"
  shows "switch_bun type (numbers (M, N, P)) = Inr (numbers (spec_increment type (M, N, P)))"
  using assms
  by (auto simp: bun_types_def switch_bun_def numbers_def spec_increment_def increment_nat)

lemma version_string_numbers:
  assumes "M \<le> 9007199254740992" "N \<le> 9007199254740992" "P \<le> 9007199254740992"
  shows "version_string (numbers (M, N, P)) = version_text (M, N, P)"
  using assms
  by (simp add: version_string_def numbers_def version_text_def Number_toString_nat
      del: Number_toString.simps)

lemma spec_increment_bound:
  assumes "M < 9007199254740992" "N < 9007199254740992" "P < 9007199254740992" "spec_increment type (M, N, P) = (M', N', P')"
  shows "M' \<le> 9007199254740992" "N' \<le> 9007199254740992" "P' \<le> 9007199254740992"
  using assms by (auto simp: spec_increment_def split: if_splits)

subsection \<open>Successful runs\<close>

lemma example_parse_text [simp]:
  "example_parse (example_text v) = Some (JObject [(''version'', JString v), (''name'', JString ''x'')])"
  by (simp add: example_parse_def example_text_def)

lemma example_stringify_text [simp]:
  "example_stringify (JObject [(''version'', JString v), (''name'', JString ''x'')]) = example_text v"
  by (simp add: example_stringify_def)

lemma updateVersion_node_success:
  assumes "manifest w = File True True text"
    and "parse J text = Some (JObject props)"
    and "map_of props ''version'' = Some (JString v)"
    and "switch_node type (parse_version v) = Inr tr"
  shows "updateVersion_node J type w = success J props v (version_string tr) w"
  using assms
  by (simp add: updateVersion_node_def readFileSync_def read_version_def store_version_def
      writeFileSync_def set_version_def success_def)

lemma updateVersion_bun_success:
  assumes "manifest w = File True True text"
    and "parse J (strip_bom text) = Some (JObject props)"
    and "map_of props ''version'' = Some (JString v)"
    and "switch_bun type (parse_version v) = Inr tr"
  shows "updateVersion_bun J type w = success J props v (version_string tr) w"
  using assms
  by (simp add: updateVersion_bun_unfold file_json_def readFileSync_def read_version_def store_version_def
      writeFileSync_def set_version_def success_def)

lemmas digit_eval = safe_part_def digit_string_def is_digit_def digits_value_def digit_value_def

lemma decimal_eval: "decimal 0 = ''0''" "decimal (Suc 0) = ''1''" "decimal 2 = ''2''" "decimal 3 = ''3''" "decimal 4 = ''4''"
  by (simp_all add: decimal.simps digit_char_def)

subsection \<open>Concrete instances and malformed versions\<close>

lemma example_no_mark: "take 3 (example_text v) \<noteq> byte_order_mark"
  by (simp add: example_text_def example_prefix_def byte_order_mark_def)

lemma example_manifest:
  "manifest (example_world v) = File True True (example_text v)"
  "parse example_JSON (example_text v) = Some (JObject [(''version'', JString v), (''name'', JString ''x'')])"
  "map_of [(''version'', JString v), (''name'', JString ''x'')] ''version'' = Some (JString v)"
  by (simp_all add: example_world_def example_JSON_def)

lemma example_manifest_bun:
  "parse example_JSON (strip_bom (example_text v)) =
     Some (JObject [(''version'', JString v), (''name'', JString ''x'')])"
  by (simp add: strip_bom_no_mark [OF example_no_mark] example_JSON_def)

lemma example_load:
  "file_json example_JSON (manifest (example_world v)) = Inr (JObject [(''version'', JString v), (''name'', JString ''x'')])"
  "read_version (JObject [(''version'', JString v), (''name'', JString ''x'')]) = Inr v"
  by (simp_all add: example_world_def example_JSON_def file_json_def readFileSync_def read_version_def
      strip_bom_no_mark [OF example_no_mark])

lemma version_text_parts:
  assumes "version_text (M', N', P') = a @ ''.'' @ b @ ''.'' @ c"
    and "digit_string a" "digit_string b" "digit_string c"
  shows "M' = digits_value a \<and> N' = digits_value b \<and> P' = digits_value c"
proof -
  have "split_dot (version_text (M', N', P')) = [decimal M', decimal N', decimal P']"
    unfolding version_text_def prod.case
    by (rule split_dot_three) (rule digit_string_no_dot [OF digit_string_decimal])+
  moreover have "split_dot (a @ ''.'' @ b @ ''.'' @ c) = [a, b, c]"
    by (rule split_dot_three) (rule digit_string_no_dot, fact)+
  ultimately have "decimal M' = a" "decimal N' = b" "decimal P' = c"
    using assms(1) by simp_all
  then show ?thesis
    using digits_value_decimal [of M'] digits_value_decimal [of N'] digits_value_decimal [of P']
    by simp
qed

lemma spec_increment_later:
  assumes "type \<in> bun_types" "spec_increment type (M, N, P) = (M', N', P')"
  shows "M < M' \<or> M = M' \<and> (N < N' \<or> N = N' \<and> P < P')"
  using assms by (auto simp: bun_types_def spec_increment_def split: if_splits)

lemma node_types_bun: "type \<in> node_types \<Longrightarrow> type \<in> bun_types"
  by (auto simp: node_types_def bun_types_def)

lemma later_version:
  assumes "safe_part a" "safe_part b" "safe_part c" "type \<in> bun_types"
  shows "\<exists>M' N' P'.
           spec_increment type (digits_value a, digits_value b, digits_value c) = (M', N', P') \<and>
           (digits_value a < M' \<or> digits_value a = M' \<and>
              (digits_value b < N' \<or> digits_value b = N' \<and> digits_value c < P')) \<and>
           version_string (numbers (M', N', P')) \<noteq> a @ ''.'' @ b @ ''.'' @ c"
proof -
  let ?M = "digits_value a" and ?N = "digits_value b" and ?P = "digits_value c"
  have lt: "?M < 9007199254740992" "?N < 9007199254740992" "?P < 9007199254740992"
    and ds: "digit_string a" "digit_string b" "digit_string c"
    using assms(1-3) by (simp_all add: safe_part_def)
  obtain M' N' P' where s: "spec_increment type (?M, ?N, ?P) = (M', N', P')"
    by (cases "spec_increment type (?M, ?N, ?P)") auto
  have later: "?M < M' \<or> ?M = M' \<and> (?N < N' \<or> ?N = N' \<and> ?P < P')"
    by (rule spec_increment_later [OF assms(4) s])
  have vs: "version_string (numbers (M', N', P')) = version_text (M', N', P')"
    by (rule version_string_numbers) (rule spec_increment_bound [OF lt s])+
  have "version_text (M', N', P') \<noteq> a @ ''.'' @ b @ ''.'' @ c"
  proof
    assume "version_text (M', N', P') = a @ ''.'' @ b @ ''.'' @ c"
    from version_text_parts [OF this ds] later show False by auto
  qed
  with s later vs show ?thesis by metis
qed

lemma big_part:
  "digit_string ''9007199254740992''"
  "digits_value ''9007199254740992'' = 9007199254740992"
  "Number_js ''9007199254740992'' = Fin 9007199254740992"
  "decimal 9007199254740992 = ''9007199254740992''"
proof -
  show d: "digit_string ''9007199254740992''" by (simp add: digit_eval)
  show v: "digits_value ''9007199254740992'' = 9007199254740992" by (simp add: digit_eval)
  show "Number_js ''9007199254740992'' = Fin 9007199254740992"
    using Number_js_safe [OF d] by (simp add: v)
  show "decimal 9007199254740992 = ''9007199254740992''"
    by (simp add: decimal.simps digit_char_def)
qed

lemma small_parts:
  "digit_string ''0''" "digit_string ''5''" "Number_js ''0'' = Fin 0" "Number_js ''5'' = Fin 5"
proof -
  show d: "digit_string ''0''" "digit_string ''5''" by (simp_all add: digit_eval)
  show "Number_js ''0'' = Fin 0" "Number_js ''5'' = Fin 5"
    using Number_js_safe [OF d(1)] Number_js_safe [OF d(2)] by (simp_all add: digit_eval)
qed









section \<open>The claims\<close>

text \<open>
  Claim C1, as amended. For a version of three parts of decimal digits with values
  \<open>M\<close>, \<open>N\<close>, \<open>P\<close> of at most \<open>2 ^ 53 - 1\<close> and a recognised type, the \<^verbatim>\<open>switch\<close> of both
  variants yields the triple of the increment rule: patch gives \<open>(M, N, P + 1)\<close>, minor
  \<open>(M, N + 1, 0)\<close>, major \<open>(M + 1, 0, 0)\<close>; and on a readable and writable manifest that
  the variant parses to an object with that version (the Node variant from the text as
  it is, the Bun variant from the text without a leading byte order mark)
  \<^verbatim>\<open>updateVersion\<close> succeeds and writes the decimal form of that triple. The bound is
  needed: the components are doubles, and \<open>2 ^ 53 + 1\<close> is not one.
\<close>

theorem increment_rule:
  assumes "safe_part a" "safe_part b" "safe_part c"
    and "manifest w = File True True text"
    and "map_of props ''version'' = Some (JString (a @ ''.'' @ b @ ''.'' @ c))"
  shows "(type \<in> node_types \<and> parse J text = Some (JObject props) \<longrightarrow>
            switch_node type (parse_version (a @ ''.'' @ b @ ''.'' @ c)) =
              Inr (numbers (spec_increment type (digits_value a, digits_value b, digits_value c))) \<and>
            updateVersion_node J type w =
              success J props (a @ ''.'' @ b @ ''.'' @ c)
                (version_text (spec_increment type (digits_value a, digits_value b, digits_value c))) w) \<and>
         (type \<in> bun_types \<and> parse J (strip_bom text) = Some (JObject props) \<longrightarrow>
            switch_bun type (parse_version (a @ ''.'' @ b @ ''.'' @ c)) =
              Inr (numbers (spec_increment type (digits_value a, digits_value b, digits_value c))) \<and>
            updateVersion_bun J type w =
              success J props (a @ ''.'' @ b @ ''.'' @ c)
                (version_text (spec_increment type (digits_value a, digits_value b, digits_value c))) w)"
proof -
  let ?v = "a @ ''.'' @ b @ ''.'' @ c"
  let ?M = "digits_value a" and ?N = "digits_value b" and ?P = "digits_value c"
  have lt: "?M < 9007199254740992" "?N < 9007199254740992" "?P < 9007199254740992"
    using assms(1-3) by (simp_all add: safe_part_def)
  obtain M' N' P' where s: "spec_increment type (?M, ?N, ?P) = (M', N', P')"
    by (cases "spec_increment type (?M, ?N, ?P)") auto
  have vs: "version_string (numbers (spec_increment type (?M, ?N, ?P))) =
            version_text (spec_increment type (?M, ?N, ?P))"
    unfolding s by (rule version_string_numbers) (rule spec_increment_bound [OF lt s])+
  have pv: "parse_version ?v = numbers (?M, ?N, ?P)"
    by (rule parse_version_safe [OF assms(1-3)])
  show ?thesis
  proof (intro conjI impI)
    assume "type \<in> node_types \<and> parse J text = Some (JObject props)"
    then have t: "type \<in> node_types" and p: "parse J text = Some (JObject props)" by simp_all
    show sw: "switch_node type (parse_version ?v) = Inr (numbers (spec_increment type (?M, ?N, ?P)))"
      unfolding pv by (rule switch_node_numbers [OF lt t])
    show "updateVersion_node J type w = success J props ?v (version_text (spec_increment type (?M, ?N, ?P))) w"
      using updateVersion_node_success [OF assms(4) p assms(5) sw] by (simp only: vs)
  next
    assume "type \<in> bun_types \<and> parse J (strip_bom text) = Some (JObject props)"
    then have t: "type \<in> bun_types" and p: "parse J (strip_bom text) = Some (JObject props)" by simp_all
    show sw: "switch_bun type (parse_version ?v) = Inr (numbers (spec_increment type (?M, ?N, ?P)))"
      unfolding pv by (rule switch_bun_numbers [OF lt t])
    show "updateVersion_bun J type w = success J props ?v (version_text (spec_increment type (?M, ?N, ?P))) w"
      using updateVersion_bun_success [OF assms(4) p assms(5) sw] by (simp only: vs)
  qed
qed

text \<open>
  The rule at 1.2.3: minor writes 1.3.0 (the scenario of the specification), and the
  alias p of the Bun variant writes 1.2.4.
\<close>

theorem increment_rule_witness:
  "updateVersion_node example_JSON ''minor'' (example_world ''1.2.3'') =
     (Inr (), \<lparr>manifest = File True True (example_text ''1.3.0''),
               stdout = [success_message ''1.2.3'' ''1.3.0''], stderr = []\<rparr>) \<and>
   updateVersion_bun example_JSON ''p'' (example_world ''1.2.3'') =
     (Inr (), \<lparr>manifest = File True True (example_text ''1.2.4''),
               stdout = [success_message ''1.2.3'' ''1.2.4''], stderr = []\<rparr>)"
proof -
  have s: "safe_part ''1''" "safe_part ''2''" "safe_part ''3''"
    by (simp_all add: digit_eval)
  have m: "manifest (example_world ''1.2.3'') = File True True (example_text ''1.2.3'')"
    by (simp add: example_world_def)
  have p: "parse example_JSON (example_text ''1.2.3'') =
      Some (JObject [(''version'', JString ''1.2.3''), (''name'', JString ''x'')])"
    "parse example_JSON (strip_bom (example_text ''1.2.3'')) =
      Some (JObject [(''version'', JString ''1.2.3''), (''name'', JString ''x'')])"
    by (rule example_manifest(2), rule example_manifest_bun)
  have v: "map_of [(''version'', JString (''1'' @ ''.'' @ ''2'' @ ''.'' @ ''3'')), (''name'', JString ''x'')] ''version'' =
      Some (JString (''1'' @ ''.'' @ ''2'' @ ''.'' @ ''3''))"
    by simp
  have d: "digits_value ''1'' = 1" "digits_value ''2'' = 2" "digits_value ''3'' = 3"
    by (simp_all add: digit_eval)
  from increment_rule [OF s m v, where type = "''minor''" and J = example_JSON]
    increment_rule [OF s m v, where type = "''p''" and J = example_JSON] p
  show ?thesis
    by (simp add: node_types_def bun_types_def d spec_increment_def version_text_def decimal_eval
        success_def example_JSON_def example_world_def)
qed

text \<open>
  Claim C1 as stated fails at the version 0.0.9007199254740992: \<^verbatim>\<open>patch++\<close> computes
  \<open>2 ^ 53 + 1\<close>, which rounds back to \<open>2 ^ 53\<close>, so the patch component does not increase.
\<close>

theorem increment_rule_counterexample:
  "switch_node ''patch'' (parse_version ''0.0.9007199254740992'') = Inr (numbers (0, 0, 9007199254740992)) \<and>
   switch_node ''patch'' (parse_version ''0.0.9007199254740992'') \<noteq>
     Inr (numbers (spec_increment ''patch'' (0, 0, 9007199254740992)))"
proof -
  have d: "digit_string ''0''" "digit_string ''9007199254740992''"
    by (simp_all add: digit_eval)
  have v: "digits_value ''0'' = 0" "digits_value ''9007199254740992'' = 9007199254740992"
    by (simp_all add: digit_eval)
  have n: "Number_js ''0'' = Fin 0" "Number_js ''9007199254740992'' = Fin 9007199254740992"
    using Number_js_safe [OF d(1)] Number_js_safe [OF d(2)] by (simp_all add: v)
  have "parse_version (''0'' @ ''.'' @ ''0'' @ ''.'' @ ''9007199254740992'') =
      (Num (Fin 0), Num (Fin 0), Num (Fin 9007199254740992))"
    by (simp only: parse_version_three [OF d(1) d(1) d(2)] n)
  then have pv: "parse_version ''0.0.9007199254740992'' = (Num (Fin 0), Num (Fin 0), Num (Fin 9007199254740992))"
    by simp
  have inc: "increment (Num (Fin 9007199254740992)) = Num (Fin 9007199254740992)"
    using js_inc_tie by (simp add: increment_def)
  show ?thesis
    by (simp add: pv switch_node_def inc numbers_def spec_increment_def)
qed

text \<open>
  Claim C2. For a type that is no case label of the \<^verbatim>\<open>switch\<close> (patch, minor, major; in
  the Bun variant also p, min, max), \<^verbatim>\<open>updateVersion\<close> throws and leaves the world as it
  was, the manifest included: nothing is written, whatever the state of the file. The
  \<^verbatim>\<open>switch\<close> is reached once the manifest is loaded and its version is a string, and the
  error thrown there is the one with the invalid-version-type message.
\<close>

theorem invalid_type_rejected:
  "(type \<notin> node_types \<longrightarrow>
      snd (updateVersion_node J type w) = w \<and>
      (\<exists>e. fst (updateVersion_node J type w) = Inl e) \<and>
      (\<forall>text pj v. readFileSync (manifest w) = Inr text \<and> parse J text = Some pj \<and>
           read_version pj = Inr v \<longrightarrow>
         fst (updateVersion_node J type w) = Inl (Error invalid_version_type))) \<and>
   (type \<notin> bun_types \<longrightarrow>
      snd (updateVersion_bun J type w) = w \<and>
      (\<exists>e. fst (updateVersion_bun J type w) = Inl e) \<and>
      (\<forall>pj v. file_json J (manifest w) = Inr pj \<and> read_version pj = Inr v \<longrightarrow>
         fst (updateVersion_bun J type w) = Inl (Error invalid_version_type)))"
  using invalid_type_node [where type = type and J = J and w = w]
    invalid_type_bun [where type = type and J = J and w = w]
  by blast

text \<open>The types banana (both variants) and p (Node variant) on the manifest 1.2.3.\<close>

theorem invalid_type_rejected_witness:
  "''banana'' \<notin> node_types \<and> ''banana'' \<notin> bun_types \<and> ''p'' \<notin> node_types \<and>
   updateVersion_node example_JSON ''banana'' (example_world ''1.2.3'') =
     (Inl (Error invalid_version_type), example_world ''1.2.3'') \<and>
   updateVersion_bun example_JSON ''banana'' (example_world ''1.2.3'') =
     (Inl (Error invalid_version_type), example_world ''1.2.3'') \<and>
   updateVersion_node example_JSON ''p'' (example_world ''1.2.3'') =
     (Inl (Error invalid_version_type), example_world ''1.2.3'')"
proof -
  have t: "''banana'' \<notin> node_types" "''banana'' \<notin> bun_types" "''p'' \<notin> node_types"
    by (simp_all add: node_types_def bun_types_def)
  have r: "readFileSync (manifest (example_world ''1.2.3'')) = Inr (example_text ''1.2.3'')"
    by (simp add: example_world_def readFileSync_def)
  from invalid_type_rejected [of "''banana''" example_JSON "example_world ''1.2.3''"]
    invalid_type_rejected [of "''p''" example_JSON "example_world ''1.2.3''"] t
    example_load [of "''1.2.3''"] r example_manifest(2) [of "''1.2.3''"]
  show ?thesis
    by (auto simp: prod_eq_iff)
qed

text \<open>
  Claim C3. If the manifest is absent or cannot be read, both variants of
  \<^verbatim>\<open>updateVersion\<close> fail with the system error of the read (ENOENT for an absent file,
  EACCES for an unreadable one) and leave the world as it was: nothing is written.
\<close>

theorem manifest_missing:
  assumes "unreadable (manifest w)"
  shows "updateVersion_node J type w = (Inl (SystemError (if manifest w = Absent then ENOENT else EACCES)), w) \<and>
         updateVersion_bun J type w = (Inl (SystemError (if manifest w = Absent then ENOENT else EACCES)), w)"
  using readFileSync_unreadable [OF assms]
  by (simp add: updateVersion_node_def updateVersion_bun_unfold file_json_def)

text \<open>An absent manifest in the Node variant, an unreadable one in the Bun variant.\<close>

theorem manifest_missing_witness:
  "unreadable Absent \<and> unreadable (File False True ''{}'') \<and>
   updateVersion_node example_JSON ''patch'' \<lparr>manifest = Absent, stdout = [], stderr = []\<rparr> =
     (Inl (SystemError ENOENT), \<lparr>manifest = Absent, stdout = [], stderr = []\<rparr>) \<and>
   updateVersion_bun example_JSON ''patch'' \<lparr>manifest = File False True ''{}'', stdout = [], stderr = []\<rparr> =
     (Inl (SystemError EACCES), \<lparr>manifest = File False True ''{}'', stdout = [], stderr = []\<rparr>)"
  using manifest_missing [of "\<lparr>manifest = Absent, stdout = [], stderr = []\<rparr>" example_JSON "''patch''"]
    manifest_missing [of "\<lparr>manifest = File False True ''{}'', stdout = [], stderr = []\<rparr>" example_JSON "''patch''"]
  by (simp add: unreadable_def)

text \<open>
  Claim C4. In the Bun variant the guard \<^verbatim>\<open>if (!file.exists())\<close> tests a promise, which
  is truthy: for every file system state the guard is passed, no run of
  \<^verbatim>\<open>updateVersion\<close> throws the error with the message "package.json file not found", and
  an absent manifest gives the ENOENT of \<^verbatim>\<open>file.json()\<close> instead.
\<close>

theorem bun_guard_never_fires:
  "ToBoolean (file_exists (manifest w)) \<and>
   fst (updateVersion_bun J type w) \<noteq> Inl (Error file_not_found) \<and>
   updateVersion_bun J type (w\<lparr>manifest := Absent\<rparr>) = (Inl (SystemError ENOENT), w\<lparr>manifest := Absent\<rparr>)"
proof -
  have 1: "ToBoolean (file_exists (manifest w))"
    by (simp add: file_exists_def)
  have 2: "fst (updateVersion_bun J type w) \<noteq> Inl (Error file_not_found)"
    using updateVersion_bun_errors [of J type w "Error file_not_found"] messages_differ
    by auto
  have 3: "updateVersion_bun J type (w\<lparr>manifest := Absent\<rparr>) = (Inl (SystemError ENOENT), w\<lparr>manifest := Absent\<rparr>)"
    by (simp add: updateVersion_bun_unfold file_json_def readFileSync_def)
  from 1 2 3 show ?thesis by blast
qed




text \<open>
  Claim C6. For a readable and writable manifest that the variant parses to an object
  whose \<^verbatim>\<open>version\<close> is a string, and a recognised type, \<^verbatim>\<open>updateVersion\<close> succeeds and writes the
  serialisation of an object with the same keys in the same order, in which every
  property other than \<^verbatim>\<open>version\<close> has the value it had, and \<^verbatim>\<open>version\<close> is a string.
\<close>

theorem only_version_changes:
  assumes "manifest w = File True True text"
    and "map_of props ''version'' = Some (JString v)"
  shows "(type \<in> node_types \<and> parse J text = Some (JObject props) \<longrightarrow>
          (\<exists>props' v'. fst (updateVersion_node J type w) = Inr () \<and>
             manifest (snd (updateVersion_node J type w)) = File True True (stringify J (JObject props')) \<and>
             map fst props' = map fst props \<and>
             (\<forall>k. k \<noteq> ''version'' \<longrightarrow> map_of props' k = map_of props k) \<and>
             map_of props' ''version'' = Some (JString v'))) \<and>
         (type \<in> bun_types \<and> parse J (strip_bom text) = Some (JObject props) \<longrightarrow>
          (\<exists>props' v'. fst (updateVersion_bun J type w) = Inr () \<and>
             manifest (snd (updateVersion_bun J type w)) = File True True (stringify J (JObject props')) \<and>
             map fst props' = map fst props \<and>
             (\<forall>k. k \<noteq> ''version'' \<longrightarrow> map_of props' k = map_of props k) \<and>
             map_of props' ''version'' = Some (JString v')))"
proof -
  have ver: "read_version (JObject props) = Inr v"
    using assms by (simp add: read_version_def)
  have frame: "\<exists>props' v'. stringify J (set_version new (JObject props)) = stringify J (JObject props') \<and>
      map fst props' = map fst props \<and>
      (\<forall>k. k \<noteq> ''version'' \<longrightarrow> map_of props' k = map_of props k) \<and>
      map_of props' ''version'' = Some (JString v')" for new
    using update_version_frame [OF assms(2), where new = "JString new"]
    by (intro exI [of _ "AList.update ''version'' (JString new) props"] exI [of _ new])
      (simp add: set_version_def)
  show ?thesis
  proof (intro conjI impI)
    assume "type \<in> node_types \<and> parse J text = Some (JObject props)"
    then have t: "type \<in> node_types" and p: "parse J text = Some (JObject props)" by simp_all
    from t obtain tr where tr: "switch_node type (parse_version v) = Inr tr"
      using switch_node_Inr by blast
    have run: "updateVersion_node J type w =
        (Inr (), w\<lparr>manifest := File True True (stringify J (set_version (version_string tr) (JObject props))),
                   stdout := stdout w @ [success_message v (version_string tr)]\<rparr>)"
      using updateVersion_node_success [OF assms(1) p assms(2) tr]
      by (simp add: success_def set_version_def)
    show "\<exists>props' v'. fst (updateVersion_node J type w) = Inr () \<and>
             manifest (snd (updateVersion_node J type w)) = File True True (stringify J (JObject props')) \<and>
             map fst props' = map fst props \<and>
             (\<forall>k. k \<noteq> ''version'' \<longrightarrow> map_of props' k = map_of props k) \<and>
             map_of props' ''version'' = Some (JString v')"
      using frame [of "version_string tr"] by (auto simp: run)
  next
    assume "type \<in> bun_types \<and> parse J (strip_bom text) = Some (JObject props)"
    then have t: "type \<in> bun_types" and p: "parse J (strip_bom text) = Some (JObject props)"
      by simp_all
    from t obtain tr where tr: "switch_bun type (parse_version v) = Inr tr"
      using switch_bun_Inr by blast
    have run: "updateVersion_bun J type w =
        (Inr (), w\<lparr>manifest := File True True (stringify J (set_version (version_string tr) (JObject props))),
                   stdout := stdout w @ [success_message v (version_string tr)]\<rparr>)"
      using updateVersion_bun_success [OF assms(1) p assms(2) tr]
      by (simp add: success_def set_version_def)
    show "\<exists>props' v'. fst (updateVersion_bun J type w) = Inr () \<and>
             manifest (snd (updateVersion_bun J type w)) = File True True (stringify J (JObject props')) \<and>
             map fst props' = map fst props \<and>
             (\<forall>k. k \<noteq> ''version'' \<longrightarrow> map_of props' k = map_of props k) \<and>
             map_of props' ''version'' = Some (JString v')"
      using frame [of "version_string tr"] by (auto simp: run)
  qed
qed

text \<open>The manifest 1.2.3 with major: the keys stay, and \<^verbatim>\<open>name\<close> is still x.\<close>

theorem only_version_changes_witness:
  "\<exists>props' v'.
     fst (updateVersion_node example_JSON ''major'' (example_world ''1.2.3'')) = Inr () \<and>
     manifest (snd (updateVersion_node example_JSON ''major'' (example_world ''1.2.3''))) =
       File True True (stringify example_JSON (JObject props')) \<and>
     map fst props' = [''version'', ''name''] \<and>
     map_of props' ''name'' = Some (JString ''x'') \<and>
     map_of props' ''version'' = Some (JString v')"
proof -
  have t: "''major'' \<in> node_types" by (simp add: node_types_def)
  from only_version_changes [OF example_manifest(1) [of "''1.2.3''"] example_manifest(3) [of "''1.2.3''"],
      where type = "''major''" and J = example_JSON]
    t example_manifest(2) [of "''1.2.3''"]
  obtain props' v' where
    "fst (updateVersion_node example_JSON ''major'' (example_world ''1.2.3'')) = Inr ()"
    "manifest (snd (updateVersion_node example_JSON ''major'' (example_world ''1.2.3''))) =
       File True True (stringify example_JSON (JObject props'))"
    "map fst props' = map fst [(''version'', JString ''1.2.3''), (''name'', JString ''x'')]"
    "\<forall>k. k \<noteq> ''version'' \<longrightarrow> map_of props' k = map_of [(''version'', JString ''1.2.3''), (''name'', JString ''x'')] k"
    "map_of props' ''version'' = Some (JString v')"
    by blast
  then show ?thesis
    by (intro exI [of _ props'] exI [of _ v']) simp
qed




text \<open>
  Claim C8. For every answer and every world, \<^verbatim>\<open>startScript\<close> ends with the exit code 1,
  whether \<^verbatim>\<open>updateVersion\<close> succeeded or failed.
\<close>

theorem startScript_exit_code:
  "snd (startScript_node J answer w) = 1 \<and> snd (startScript_bun J answer w) = 1"
  by (simp add: startScript_node_def startScript_bun_def finish_def split: prod.splits sum.splits)

text \<open>
  Claim C9. In the Bun variant the aliases p, min and max have the outcome of patch,
  minor and major, in the \<^verbatim>\<open>switch\<close> and in \<^verbatim>\<open>updateVersion\<close> as a whole, in every world.
\<close>

theorem bun_aliases:
  "switch_bun ''p'' v = switch_bun ''patch'' v \<and>
   switch_bun ''min'' v = switch_bun ''minor'' v \<and>
   switch_bun ''max'' v = switch_bun ''major'' v \<and>
   updateVersion_bun J ''p'' w = updateVersion_bun J ''patch'' w \<and>
   updateVersion_bun J ''min'' w = updateVersion_bun J ''minor'' w \<and>
   updateVersion_bun J ''max'' w = updateVersion_bun J ''major'' w"
  by (simp add: updateVersion_bun_unfold switch_bun_alias cong: sum.case_cong)

text \<open>
  Claim C10, as amended. For a version of three parts of decimal digits with values of
  at most \<open>2 ^ 53 - 1\<close> and a recognised type, the triple the \<^verbatim>\<open>switch\<close> yields comes
  strictly later in the order of precedence (major, then minor, then patch), and the
  version string made of it differs from the one read. Beyond the safe integers this
  fails, as the increment of the double can be lost.
\<close>

theorem version_increases:
  assumes "safe_part a" "safe_part b" "safe_part c"
  shows "(type \<in> node_types \<longrightarrow>
           (\<exists>M' N' P'.
              switch_node type (parse_version (a @ ''.'' @ b @ ''.'' @ c)) = Inr (numbers (M', N', P')) \<and>
              (digits_value a < M' \<or> digits_value a = M' \<and>
                 (digits_value b < N' \<or> digits_value b = N' \<and> digits_value c < P')) \<and>
              version_string (numbers (M', N', P')) \<noteq> a @ ''.'' @ b @ ''.'' @ c)) \<and>
         (type \<in> bun_types \<longrightarrow>
           (\<exists>M' N' P'.
              switch_bun type (parse_version (a @ ''.'' @ b @ ''.'' @ c)) = Inr (numbers (M', N', P')) \<and>
              (digits_value a < M' \<or> digits_value a = M' \<and>
                 (digits_value b < N' \<or> digits_value b = N' \<and> digits_value c < P')) \<and>
              version_string (numbers (M', N', P')) \<noteq> a @ ''.'' @ b @ ''.'' @ c))"
proof -
  let ?M = "digits_value a" and ?N = "digits_value b" and ?P = "digits_value c"
  have lt: "?M < 9007199254740992" "?N < 9007199254740992" "?P < 9007199254740992"
    using assms by (simp_all add: safe_part_def)
  have pv: "parse_version (a @ ''.'' @ b @ ''.'' @ c) = numbers (?M, ?N, ?P)"
    by (rule parse_version_safe [OF assms])
  show ?thesis
  proof (intro conjI impI)
    assume t: "type \<in> node_types"
    from later_version [OF assms node_types_bun [OF t]] switch_node_numbers [OF lt t]
    show "\<exists>M' N' P'.
              switch_node type (parse_version (a @ ''.'' @ b @ ''.'' @ c)) = Inr (numbers (M', N', P')) \<and>
              (?M < M' \<or> ?M = M' \<and> (?N < N' \<or> ?N = N' \<and> ?P < P')) \<and>
              version_string (numbers (M', N', P')) \<noteq> a @ ''.'' @ b @ ''.'' @ c"
      unfolding pv by metis
  next
    assume t: "type \<in> bun_types"
    from later_version [OF assms t] switch_bun_numbers [OF lt t]
    show "\<exists>M' N' P'.
              switch_bun type (parse_version (a @ ''.'' @ b @ ''.'' @ c)) = Inr (numbers (M', N', P')) \<and>
              (?M < M' \<or> ?M = M' \<and> (?N < N' \<or> ?N = N' \<and> ?P < P')) \<and>
              version_string (numbers (M', N', P')) \<noteq> a @ ''.'' @ b @ ''.'' @ c"
      unfolding pv by metis
  qed
qed

text \<open>At 1.2.3 with minor the result comes later and is not 1.2.3.\<close>

theorem version_increases_witness:
  "safe_part ''1'' \<and> safe_part ''2'' \<and> safe_part ''3'' \<and> ''minor'' \<in> node_types \<and>
   (\<exists>M' N' P'.
      switch_node ''minor'' (parse_version ''1.2.3'') = Inr (numbers (M', N', P')) \<and>
      (1 < M' \<or> 1 = M' \<and> (2 < N' \<or> 2 = N' \<and> 3 < P')) \<and>
      version_string (numbers (M', N', P')) \<noteq> ''1.2.3'')"
proof -
  have s: "safe_part ''1''" "safe_part ''2''" "safe_part ''3''"
    by (simp_all add: digit_eval)
  have t: "''minor'' \<in> node_types" by (simp add: node_types_def)
  have d: "digits_value ''1'' = 1" "digits_value ''2'' = 2" "digits_value ''3'' = 3"
    by (simp_all add: digit_eval)
  from version_increases [OF s, of "''minor''"] t
  have "\<exists>M' N' P'.
      switch_node ''minor'' (parse_version (''1'' @ ''.'' @ ''2'' @ ''.'' @ ''3'')) = Inr (numbers (M', N', P')) \<and>
      (digits_value ''1'' < M' \<or> digits_value ''1'' = M' \<and>
         (digits_value ''2'' < N' \<or> digits_value ''2'' = N' \<and> digits_value ''3'' < P')) \<and>
      version_string (numbers (M', N', P')) \<noteq> ''1'' @ ''.'' @ ''2'' @ ''.'' @ ''3''"
    by blast
  then have "\<exists>M' N' P'.
      switch_node ''minor'' (parse_version ''1.2.3'') = Inr (numbers (M', N', P')) \<and>
      (1 < M' \<or> 1 = M' \<and> (2 < N' \<or> 2 = N' \<and> 3 < P')) \<and>
      version_string (numbers (M', N', P')) \<noteq> ''1.2.3''"
    unfolding d by simp
  with s t show ?thesis by blast
qed

text \<open>
  Claim C10 as stated fails: minor on 0.9007199254740992.5 gives 0.9007199254740992.0,
  which comes earlier, and patch on 0.0.9007199254740992 gives the same string back.
\<close>

theorem version_increases_counterexample:
  "switch_node ''minor'' (parse_version ''0.9007199254740992.5'') = Inr (numbers (0, 9007199254740992, 0)) \<and>
   version_string (numbers (0, 9007199254740992, 0)) = ''0.9007199254740992.0'' \<and>
   switch_node ''patch'' (parse_version ''0.0.9007199254740992'') = Inr (numbers (0, 0, 9007199254740992)) \<and>
   version_string (numbers (0, 0, 9007199254740992)) = ''0.0.9007199254740992''"
proof -
  have "parse_version (''0'' @ ''.'' @ ''9007199254740992'' @ ''.'' @ ''5'') =
      (Num (Fin 0), Num (Fin 9007199254740992), Num (Fin 5))"
    by (simp only: parse_version_three [OF small_parts(1) big_part(1) small_parts(2)] big_part small_parts)
  then have pv1: "parse_version ''0.9007199254740992.5'' = (Num (Fin 0), Num (Fin 9007199254740992), Num (Fin 5))"
    by simp
  have "parse_version (''0'' @ ''.'' @ ''0'' @ ''.'' @ ''9007199254740992'') =
      (Num (Fin 0), Num (Fin 0), Num (Fin 9007199254740992))"
    by (simp only: parse_version_three [OF small_parts(1) small_parts(1) big_part(1)] big_part small_parts)
  then have pv2: "parse_version ''0.0.9007199254740992'' = (Num (Fin 0), Num (Fin 0), Num (Fin 9007199254740992))"
    by simp
  have inc: "increment (Num (Fin 9007199254740992)) = Num (Fin 9007199254740992)"
    using js_inc_tie by (simp add: increment_def)
  have 1: "switch_node ''minor'' (parse_version ''0.9007199254740992.5'') = Inr (numbers (0, 9007199254740992, 0))"
    by (simp add: pv1 switch_node_def inc numbers_def)
  have 2: "switch_node ''patch'' (parse_version ''0.0.9007199254740992'') = Inr (numbers (0, 0, 9007199254740992))"
    by (simp add: pv2 switch_node_def inc numbers_def)
  have 3: "version_string (numbers (0, 9007199254740992, 0)) = ''0.9007199254740992.0''"
    using version_string_numbers [of 0 9007199254740992 0]
    by (simp add: version_text_def big_part decimal_eval)
  have 4: "version_string (numbers (0, 0, 9007199254740992)) = ''0.0.9007199254740992''"
    using version_string_numbers [of 0 0 9007199254740992]
    by (simp add: version_text_def big_part decimal_eval)
  from 1 2 3 4 show ?thesis by blast
qed

end
